theory Spec2Isabelle
  imports Complex_Main
begin

section \<open>Number model and errors\<close>

text \<open>
  The program computes on IEEE doubles. In the likelihood evaluators and the maximization
  steps a finite double is a \<^typ>\<open>real\<close>: rounding, overflow and signed zeros are not
  modelled there. \<open>log\<close> and the divisions are the real \<^const>\<open>ln\<close> and \<open>/\<close>; they describe the
  program only where the argument of \<open>log\<close> is positive and the divisor is not zero. The
  divisor \<open>1 + exp x\<close> is positive; for \<open>\<theta>\<close> and \<open>\<pi>\<close> the theorems about the values of the
  likelihood assume entries in \<open>(0, 1)\<close>. The one division whose divisor can be zero by
  design, the quotient of the closed-form M-step, returns a \<open>quot\<close>: a finite value, an
  infinity (of either sign) or a NaN, as IEEE division does.

  The expectation step is specified by what it returns on finite values, so it is
  modelled on doubles with their infinities and NaN (type \<open>dbl\<close>, below).

  The linear-algebra library checks sizes and indices and throws; every throw is a
  value of \<open>error\<close>. A read through a raw pointer that leaves the vector is undefined
  behaviour in the program and \<open>UndefinedRead\<close> here.
\<close>

datatype error = DimMismatch | IndexOutOfBounds | EmptyObject | UndefinedRead

datatype quot = Finite real | Infinite | NaN

definition ddiv :: "real \<Rightarrow> real \<Rightarrow> quot" where
  "ddiv a b = (if b \<noteq> 0 then Finite (a / b) else if a = 0 then NaN else Infinite)"

definition bindE :: "error + 'a \<Rightarrow> ('a \<Rightarrow> error + 'b) \<Rightarrow> error + 'b" where
  "bindE m f = (case m of Inl e \<Rightarrow> Inl e | Inr x \<Rightarrow> f x)"

fun foldE :: "('s \<Rightarrow> 'a \<Rightarrow> error + 's) \<Rightarrow> 's \<Rightarrow> 'a list \<Rightarrow> error + 's" where
  "foldE f s [] = Inr s"
| "foldE f s (x # xs) = (case f s x of Inl e \<Rightarrow> Inl e | Inr s' \<Rightarrow> foldE f s' xs)"

fun mapE :: "('a \<Rightarrow> error + 'b) \<Rightarrow> 'a list \<Rightarrow> error + 'b list" where
  "mapE f [] = Inr []"
| "mapE f (x # xs) =
     (case f x of Inl e \<Rightarrow> Inl e
      | Inr y \<Rightarrow> (case mapE f xs of Inl e \<Rightarrow> Inl e | Inr ys \<Rightarrow> Inr (y # ys)))"

definition sum_upto :: "nat \<Rightarrow> (nat \<Rightarrow> real) \<Rightarrow> real" where
  "sum_upto n f = sum_list (map f [0..<n])"

section \<open>Dense matrices, vectors, cubes, sparse matrices\<close>

text \<open>
  \<open>arma::mat\<close>: the two sizes and the elements in column-major order, element \<open>(i, j)\<close> at
  \<open>i + j * n_rows\<close>. \<open>arma::vec\<close> and \<open>arma::rowvec\<close> are lists.
\<close>

record 'a matrix =
  n_rows :: nat
  n_cols :: nat
  mem :: "'a list"

type_synonym mat = "real matrix"

definition m_at :: "'a matrix \<Rightarrow> nat \<Rightarrow> nat \<Rightarrow> 'a" where
  "m_at A i j = mem A ! (i + j * n_rows A)"

definition m_elem :: "'a matrix \<Rightarrow> nat \<Rightarrow> nat \<Rightarrow> error + 'a" where
  "m_elem A i j = (if i < n_rows A \<and> j < n_cols A then Inr (m_at A i j) else Inl IndexOutOfBounds)"

definition mk_mat :: "nat \<Rightarrow> nat \<Rightarrow> (nat \<Rightarrow> nat \<Rightarrow> 'a) \<Rightarrow> 'a matrix" where
  "mk_mat r c f = \<lparr>n_rows = r, n_cols = c, mem = map (\<lambda>k. f (k mod r) (k div r)) [0..<r * c]\<rparr>"

definition mat_of_rows :: "nat \<Rightarrow> nat \<Rightarrow> 'a list list \<Rightarrow> 'a matrix" where
  "mat_of_rows r c rows = mk_mat r c (\<lambda>i j. rows ! i ! j)"

definition m_row :: "'a matrix \<Rightarrow> nat \<Rightarrow> 'a list" where
  "m_row A i = map (\<lambda>j. m_at A i j) [0..<n_cols A]"

definition m_map :: "('a \<Rightarrow> 'b) \<Rightarrow> 'a matrix \<Rightarrow> 'b matrix" where
  "m_map g A = mk_mat (n_rows A) (n_cols A) (\<lambda>i j. g (m_at A i j))"

definition m_trans :: "'a matrix \<Rightarrow> 'a matrix" where
  "m_trans A = mk_mat (n_cols A) (n_rows A) (\<lambda>i j. m_at A j i)"

definition m_mul :: "mat \<Rightarrow> mat \<Rightarrow> error + mat" where
  "m_mul A B =
     (if n_cols A \<noteq> n_rows B then Inl DimMismatch
      else Inr (mk_mat (n_rows A) (n_cols B)
                  (\<lambda>i j. sum_upto (n_cols A) (\<lambda>k. m_at A i k * m_at B k j))))"

definition m_add :: "mat \<Rightarrow> mat \<Rightarrow> error + mat" where
  "m_add A B =
     (if n_rows A \<noteq> n_rows B \<or> n_cols A \<noteq> n_cols B then Inl DimMismatch
      else Inr (mk_mat (n_rows A) (n_cols A) (\<lambda>i j. m_at A i j + m_at B i j)))"

definition schur :: "mat \<Rightarrow> mat \<Rightarrow> error + mat" where
  "schur A B =
     (if n_rows A \<noteq> n_rows B \<or> n_cols A \<noteq> n_cols B then Inl DimMismatch
      else Inr (mk_mat (n_rows A) (n_cols A) (\<lambda>i j. m_at A i j * m_at B i j)))"

definition m_div :: "mat \<Rightarrow> mat \<Rightarrow> error + quot matrix" where
  "m_div A B =
     (if n_rows A \<noteq> n_rows B \<or> n_cols A \<noteq> n_cols B then Inl DimMismatch
      else Inr (mk_mat (n_rows A) (n_cols A) (\<lambda>i j. ddiv (m_at A i j) (m_at B i j))))"

definition accu :: "mat \<Rightarrow> real" where
  "accu A = sum_upto (n_cols A) (\<lambda>j. sum_upto (n_rows A) (\<lambda>i. m_at A i j))"

definition mat_vec :: "mat \<Rightarrow> real list \<Rightarrow> error + real list" where
  "mat_vec A v =
     (if n_cols A \<noteq> length v then Inl DimMismatch
      else Inr (map (\<lambda>i. sum_upto (n_cols A) (\<lambda>k. m_at A i k * v ! k)) [0..<n_rows A]))"

text \<open>
  \<open>arma::sp_mat\<close>: the sizes and the stored entries \<open>(row, column, value)\<close> in the order
  its iterator visits them (column by column, rows increasing). The class keeps
  them in range, at distinct places and non-zero: \<open>sp_wf\<close>.
\<close>

record sp_mat =
  sp_n_rows :: nat
  sp_n_cols :: nat
  entries :: "(nat \<times> nat \<times> real) list"

definition col_major :: "nat \<times> nat \<times> real \<Rightarrow> nat \<times> nat \<times> real \<Rightarrow> bool" where
  "col_major a b =
     (fst (snd a) < fst (snd b) \<or> (fst (snd a) = fst (snd b) \<and> fst a < fst b))"

definition sp_wf :: "sp_mat \<Rightarrow> bool" where
  "sp_wf Y =
     (sorted_wrt col_major (entries Y) \<and>
      list_all (\<lambda>e. fst e < sp_n_rows Y \<and> fst (snd e) < sp_n_cols Y \<and> snd (snd e) \<noteq> 0)
        (entries Y))"

definition sp_at :: "sp_mat \<Rightarrow> nat \<Rightarrow> nat \<Rightarrow> real" where
  "sp_at Y i j =
     (case find (\<lambda>e. fst e = i \<and> fst (snd e) = j) (entries Y) of
        None \<Rightarrow> 0 | Some e \<Rightarrow> snd (snd e))"

definition sp_elem :: "sp_mat \<Rightarrow> nat \<Rightarrow> nat \<Rightarrow> error + real" where
  "sp_elem Y i j =
     (if i < sp_n_rows Y \<and> j < sp_n_cols Y then Inr (sp_at Y i j) else Inl IndexOutOfBounds)"

definition mul_sp :: "mat \<Rightarrow> sp_mat \<Rightarrow> error + mat" where
  "mul_sp A Y =
     (if n_cols A \<noteq> sp_n_rows Y then Inl DimMismatch
      else Inr (mk_mat (n_rows A) (sp_n_cols Y)
                  (\<lambda>i j. sum_upto (n_cols A) (\<lambda>k. m_at A i k * sp_at Y k j))))"

text \<open>The iterator test \<open>Yij.row() > Yij.col()\<close>: the entry lies in the strict lower triangle.\<close>

definition lower :: "nat \<times> nat \<times> real \<Rightarrow> bool" where
  "lower e = (fst (snd e) < fst e)"

text \<open>\<open>arma::cube\<close>: element \<open>(i, j, k)\<close> at \<open>i + j * n_rows + k * n_rows * n_cols\<close>.\<close>

record cube =
  c_n_rows :: nat
  c_n_cols :: nat
  c_n_slices :: nat
  c_mem :: "real list"

definition c_at :: "cube \<Rightarrow> nat \<Rightarrow> nat \<Rightarrow> nat \<Rightarrow> real" where
  "c_at X i j k = c_mem X ! (i + j * c_n_rows X + k * (c_n_rows X * c_n_cols X))"

definition tube :: "cube \<Rightarrow> nat \<Rightarrow> nat \<Rightarrow> error + real list" where
  "tube X i j =
     (if i < c_n_rows X \<and> j < c_n_cols X then Inr (map (\<lambda>k. c_at X i j k) [0..<c_n_slices X])
      else Inl IndexOutOfBounds)"

section \<open>Likelihood evaluators\<close>

definition logit_m :: "mat \<Rightarrow> mat" where
  "logit_m \<theta> = m_map (\<lambda>t. ln (t / (1 - t))) \<theta>"

definition log1m_m :: "mat \<Rightarrow> mat" where
  "log1m_m \<theta> = m_map (\<lambda>t. ln (1 - t)) \<theta>"

text \<open>\<open>Z.t() * Y * Z\<close>, the products from left to right.\<close>

definition quad :: "mat \<Rightarrow> sp_mat \<Rightarrow> error + mat" where
  "quad Z Y = bindE (mul_sp (m_trans Z) Y) (\<lambda>ZtY. m_mul ZtY Z)"

definition vLL_complete_sparse_bernoulli_undirected_nocovariate ::
  "sp_mat \<Rightarrow> sp_mat \<Rightarrow> mat \<Rightarrow> mat \<Rightarrow> real list \<Rightarrow> error + real" where
  "vLL_complete_sparse_bernoulli_undirected_nocovariate Y R Z \<theta> pi_v =
     bindE (quad Z Y) (\<lambda>A. bindE (schur A (logit_m \<theta>)) (\<lambda>AL.
     bindE (quad Z R) (\<lambda>B. bindE (schur B (log1m_m \<theta>)) (\<lambda>BL.
     bindE (mat_vec Z (map ln pi_v)) (\<lambda>p.
       Inr (0.5 * accu AL + 0.5 * accu BL + sum_list p))))))"

definition vLL_complete_sparse_bernoulli_directed_nocovariate ::
  "sp_mat \<Rightarrow> sp_mat \<Rightarrow> mat \<Rightarrow> mat \<Rightarrow> real list \<Rightarrow> error + real" where
  "vLL_complete_sparse_bernoulli_directed_nocovariate Y R Z \<theta> pi_v =
     bindE (quad Z Y) (\<lambda>A. bindE (schur A (logit_m \<theta>)) (\<lambda>AL.
     bindE (quad Z R) (\<lambda>B. bindE (schur B (log1m_m \<theta>)) (\<lambda>BL.
     bindE (mat_vec Z (map ln pi_v)) (\<lambda>p.
       Inr (accu AL + accu BL + sum_list p))))))"

text \<open>
  The two nested loops \<open>for q < Q, for l < Q: loglik += term(q, l)\<close>; the element reads
  \<open>Z(i, q)\<close>, \<open>Gamma(q, l)\<close>, \<open>M(i, j)\<close> are bounds-checked.
\<close>

definition accumulate :: "nat \<Rightarrow> (nat \<Rightarrow> nat \<Rightarrow> error + real) \<Rightarrow> real \<Rightarrow> error + real" where
  "accumulate Q t acc0 =
     foldE (\<lambda>acc q. foldE (\<lambda>acc' l. bindE (t q l) (\<lambda>x. Inr (acc' + x))) acc [0..<Q]) acc0 [0..<Q]"

definition edge_term :: "mat \<Rightarrow> mat \<Rightarrow> mat \<Rightarrow> nat \<Rightarrow> nat \<Rightarrow> nat \<Rightarrow> nat \<Rightarrow> error + real" where
  "edge_term Z Gamma M r c q l =
     bindE (m_elem Z r q) (\<lambda>a. bindE (m_elem Z c l) (\<lambda>b.
     bindE (m_elem Gamma q l) (\<lambda>g. bindE (m_elem M r c) (\<lambda>m.
       Inr (a * b * (g + m))))))"

definition mask_term :: "mat \<Rightarrow> mat \<Rightarrow> mat \<Rightarrow> nat \<Rightarrow> nat \<Rightarrow> nat \<Rightarrow> nat \<Rightarrow> error + real" where
  "mask_term Z Gamma M r c q l =
     bindE (m_elem Z r q) (\<lambda>a. bindE (m_elem Z c l) (\<lambda>b.
     bindE (m_elem Gamma q l) (\<lambda>g. bindE (m_elem M r c) (\<lambda>m.
       Inr (- a * b * ln (1 + exp (g + m)))))))"

definition vLL_complete_sparse_bernoulli_undirected_covariates ::
  "sp_mat \<Rightarrow> sp_mat \<Rightarrow> mat \<Rightarrow> mat \<Rightarrow> mat \<Rightarrow> real list \<Rightarrow> error + real" where
  "vLL_complete_sparse_bernoulli_undirected_covariates Y R M Z Gamma pi_v =
     bindE (mat_vec Z (map ln pi_v)) (\<lambda>p.
     bindE (foldE (\<lambda>loglik e.
              if lower e
              then accumulate (n_cols Z) (edge_term Z Gamma M (fst e) (fst (snd e))) loglik
              else Inr loglik) (sum_list p) (entries Y)) (\<lambda>loglik1.
     foldE (\<lambda>loglik e.
              if lower e
              then accumulate (n_cols Z) (mask_term Z Gamma M (fst e) (fst (snd e))) loglik
              else Inr loglik) loglik1 (entries R)))"

definition vLL_complete_sparse_bernoulli_directed_covariates ::
  "sp_mat \<Rightarrow> sp_mat \<Rightarrow> mat \<Rightarrow> mat \<Rightarrow> mat \<Rightarrow> real list \<Rightarrow> error + real" where
  "vLL_complete_sparse_bernoulli_directed_covariates Y R M Z Gamma pi_v =
     bindE (mat_vec Z (map ln pi_v)) (\<lambda>p.
     bindE (foldE (\<lambda>loglik e.
              accumulate (n_cols Z) (edge_term Z Gamma M (fst e) (fst (snd e))) loglik)
            (sum_list p) (entries Y)) (\<lambda>loglik1.
     foldE (\<lambda>loglik e.
              accumulate (n_cols Z) (mask_term Z Gamma M (fst e) (fst (snd e))) loglik)
            loglik1 (entries R)))"

section \<open>Maximization step, closed form\<close>

text \<open>\<open>(Z.t() * Y * Z) / (Z.t() * R * Z)\<close>: three exported functions with the same body.\<close>

definition M_step_sparse_bernoulli_undirected_nocovariate ::
  "sp_mat \<Rightarrow> sp_mat \<Rightarrow> mat \<Rightarrow> error + quot matrix" where
  "M_step_sparse_bernoulli_undirected_nocovariate Y R Z =
     bindE (quad Z Y) (\<lambda>A. bindE (quad Z R) (\<lambda>B. m_div A B))"

definition M_step_sparse_bernoulli_directed_nocovariate ::
  "sp_mat \<Rightarrow> sp_mat \<Rightarrow> mat \<Rightarrow> error + quot matrix" where
  "M_step_sparse_bernoulli_directed_nocovariate Y R Z =
     bindE (quad Z Y) (\<lambda>A. bindE (quad Z R) (\<lambda>B. m_div A B))"

definition M_step_sparse_bernoulli_directed_covariates ::
  "sp_mat \<Rightarrow> sp_mat \<Rightarrow> mat \<Rightarrow> error + quot matrix" where
  "M_step_sparse_bernoulli_directed_covariates Y R Z =
     bindE (quad Z Y) (\<lambda>A. bindE (quad Z R) (\<lambda>B. m_div A B))"

section \<open>Doubles with overflow\<close>

text \<open>
  A double is a finite real, one of the two infinities or a NaN. The result of an
  operation on finite values is the real result when it lies within the largest double,
  and the infinity of its sign beyond it; the special values combine as IEEE 754 says.
  Rounding, underflow and the sign of zero are not modelled: a zero divisor counts as \<open>+0\<close>.
\<close>

datatype dbl = Fin real | PInf | NInf | QNaN

definition max_double :: real where
  "max_double = 2 ^ 1024 - 2 ^ 971"

definition ovf :: "real \<Rightarrow> dbl" where
  "ovf r = (if max_double < r then PInf else if r < - max_double then NInf else Fin r)"

fun dneg :: "dbl \<Rightarrow> dbl" where
  "dneg (Fin a) = Fin (- a)"
| "dneg PInf = NInf"
| "dneg NInf = PInf"
| "dneg QNaN = QNaN"

fun dadd :: "dbl \<Rightarrow> dbl \<Rightarrow> dbl" where
  "dadd (Fin a) (Fin b) = ovf (a + b)"
| "dadd QNaN y = QNaN"
| "dadd x QNaN = QNaN"
| "dadd PInf NInf = QNaN"
| "dadd NInf PInf = QNaN"
| "dadd PInf y = PInf"
| "dadd x PInf = PInf"
| "dadd NInf y = NInf"
| "dadd x NInf = NInf"

definition dsub :: "dbl \<Rightarrow> dbl \<Rightarrow> dbl" where
  "dsub x y = dadd x (dneg y)"

definition inf_of_sign :: "real \<Rightarrow> dbl" where
  "inf_of_sign a = (if a = 0 then QNaN else if 0 < a then PInf else NInf)"

fun dmul :: "dbl \<Rightarrow> dbl \<Rightarrow> dbl" where
  "dmul (Fin a) (Fin b) = ovf (a * b)"
| "dmul QNaN y = QNaN"
| "dmul x QNaN = QNaN"
| "dmul (Fin a) PInf = inf_of_sign a"
| "dmul (Fin a) NInf = inf_of_sign (- a)"
| "dmul PInf (Fin b) = inf_of_sign b"
| "dmul NInf (Fin b) = inf_of_sign (- b)"
| "dmul PInf PInf = PInf"
| "dmul PInf NInf = NInf"
| "dmul NInf PInf = NInf"
| "dmul NInf NInf = PInf"

fun ddivide :: "dbl \<Rightarrow> dbl \<Rightarrow> dbl" where
  "ddivide (Fin a) (Fin b) = (if b = 0 then inf_of_sign a else ovf (a / b))"
| "ddivide QNaN y = QNaN"
| "ddivide x QNaN = QNaN"
| "ddivide (Fin a) PInf = Fin 0"
| "ddivide (Fin a) NInf = Fin 0"
| "ddivide PInf (Fin b) = (if 0 \<le> b then PInf else NInf)"
| "ddivide NInf (Fin b) = (if 0 \<le> b then NInf else PInf)"
| "ddivide PInf PInf = QNaN"
| "ddivide PInf NInf = QNaN"
| "ddivide NInf PInf = QNaN"
| "ddivide NInf NInf = QNaN"

fun dexp :: "dbl \<Rightarrow> dbl" where
  "dexp (Fin a) = ovf (exp a)"
| "dexp PInf = PInf"
| "dexp NInf = Fin 0"
| "dexp QNaN = QNaN"

fun dlog :: "dbl \<Rightarrow> dbl" where
  "dlog (Fin a) = (if 0 < a then ovf (ln a) else if a = 0 then NInf else QNaN)"
| "dlog PInf = PInf"
| "dlog NInf = QNaN"
| "dlog QNaN = QNaN"

text \<open>The comparison \<open>x > y\<close>: false when either side is a NaN.\<close>

fun dgt :: "dbl \<Rightarrow> dbl \<Rightarrow> bool" where
  "dgt (Fin a) (Fin b) = (b < a)"
| "dgt QNaN y = False"
| "dgt x QNaN = False"
| "dgt x PInf = False"
| "dgt PInf y = True"
| "dgt NInf y = False"
| "dgt (Fin a) NInf = True"

text \<open>Accumulation in index order, from zero.\<close>

primrec dsum :: "nat \<Rightarrow> (nat \<Rightarrow> dbl) \<Rightarrow> dbl" where
  "dsum 0 f = Fin 0"
| "dsum (Suc n) f = dadd (dsum n f) (f n)"

definition dsum_list :: "dbl list \<Rightarrow> dbl" where
  "dsum_list xs = foldl dadd (Fin 0) xs"

definition is_fin :: "dbl \<Rightarrow> bool" where
  "is_fin x = (case x of Fin a \<Rightarrow> True | _ \<Rightarrow> False)"

definition val :: "dbl \<Rightarrow> real" where
  "val x = (case x of Fin a \<Rightarrow> a | _ \<Rightarrow> 0)"

section \<open>Expectation step\<close>

text \<open>
  The arguments are finite (matrices of reals); every intermediate matrix holds doubles.
  \<open>Y * Z\<close> and \<open>Y.t() * Z\<close> with a sparse \<open>Y\<close>, and the product and sum of dense matrices.
\<close>

definition sp_mul :: "sp_mat \<Rightarrow> mat \<Rightarrow> error + dbl matrix" where
  "sp_mul Y B =
     (if sp_n_cols Y \<noteq> n_rows B then Inl DimMismatch
      else Inr (mk_mat (sp_n_rows Y) (n_cols B)
                  (\<lambda>i j. dsum (sp_n_cols Y) (\<lambda>k. dmul (Fin (sp_at Y i k)) (Fin (m_at B k j))))))"

definition spt_mul :: "sp_mat \<Rightarrow> mat \<Rightarrow> error + dbl matrix" where
  "spt_mul Y B =
     (if sp_n_rows Y \<noteq> n_rows B then Inl DimMismatch
      else Inr (mk_mat (sp_n_cols Y) (n_cols B)
                  (\<lambda>i j. dsum (sp_n_rows Y) (\<lambda>k. dmul (Fin (sp_at Y k i)) (Fin (m_at B k j))))))"

definition d_mul :: "dbl matrix \<Rightarrow> dbl matrix \<Rightarrow> error + dbl matrix" where
  "d_mul A B =
     (if n_cols A \<noteq> n_rows B then Inl DimMismatch
      else Inr (mk_mat (n_rows A) (n_cols B)
                  (\<lambda>i j. dsum (n_cols A) (\<lambda>k. dmul (m_at A i k) (m_at B k j)))))"

definition d_add :: "dbl matrix \<Rightarrow> dbl matrix \<Rightarrow> error + dbl matrix" where
  "d_add A B =
     (if n_rows A \<noteq> n_rows B \<or> n_cols A \<noteq> n_cols B then Inl DimMismatch
      else Inr (mk_mat (n_rows A) (n_cols A) (\<lambda>i j. dadd (m_at A i j) (m_at B i j))))"

text \<open>\<open>log(theta/(1 - theta))\<close>, \<open>log(1 - theta)\<close> and \<open>log(pi)\<close>, element by element.\<close>

definition logit_d :: "mat \<Rightarrow> dbl matrix" where
  "logit_d \<theta> = m_map (\<lambda>t. dlog (ddivide (Fin t) (dsub (Fin 1) (Fin t)))) \<theta>"

definition log1m_d :: "mat \<Rightarrow> dbl matrix" where
  "log1m_d \<theta> = m_map (\<lambda>t. dlog (dsub (Fin 1) (Fin t))) \<theta>"

definition log_v :: "real list \<Rightarrow> dbl list" where
  "log_v pi_v = map (\<lambda>p. dlog (Fin p)) pi_v"

text \<open>\<open>log_tau.each_row() += log(pi)\<close>.\<close>

definition each_row_add :: "dbl matrix \<Rightarrow> dbl list \<Rightarrow> error + dbl matrix" where
  "each_row_add A v =
     (if length v \<noteq> n_cols A then Inl DimMismatch
      else Inr (mk_mat (n_rows A) (n_cols A) (\<lambda>i j. dadd (m_at A i j) (v ! j))))"

text \<open>
  \<open>max(x)\<close> throws on a vector with no elements; otherwise it starts from \<open>-\<infinity>\<close> and keeps
  every element greater than the maximum so far.
\<close>

definition vmax :: "dbl list \<Rightarrow> error + dbl" where
  "vmax x =
     (if x = [] then Inl EmptyObject
      else Inr (fold (\<lambda>v m. if dgt v m then v else m) x NInf))"

text \<open>The lambda \<open>x = exp(x - max(x)) / sum(exp(x - max(x)))\<close>.\<close>

definition softmax_row :: "dbl list \<Rightarrow> error + dbl list" where
  "softmax_row x =
     bindE (vmax x) (\<lambda>m.
       Inr (map (\<lambda>v. ddivide (dexp (dsub v m)) (dsum_list (map (\<lambda>u. dexp (dsub u m)) x))) x))"

text \<open>\<open>A.each_row(F)\<close>: every row is copied out, passed to \<open>F\<close> and copied back.\<close>

definition each_row_apply :: "('a list \<Rightarrow> error + 'a list) \<Rightarrow> 'a matrix \<Rightarrow> error + 'a matrix" where
  "each_row_apply F A =
     bindE (mapE F (map (m_row A) [0..<n_rows A])) (\<lambda>rows.
       Inr (mk_mat (n_rows A) (n_cols A) (\<lambda>i j. rows ! i ! j)))"

text \<open>
  Each E-step computes the matrix \<open>log_tau\<close> of log-scores and ends with the softmax of
  its rows. The two steps are two definitions, so that a theorem can speak of the
  log-scores.
\<close>

definition log_tau_undirected_nocovariate ::
  "sp_mat \<Rightarrow> sp_mat \<Rightarrow> mat \<Rightarrow> mat \<Rightarrow> real list \<Rightarrow> real \<Rightarrow> error + dbl matrix" where
  "log_tau_undirected_nocovariate Y R Z \<theta> pi_v log_lambda =
     bindE (sp_mul Y Z) (\<lambda>YZ. bindE (d_mul YZ (logit_d \<theta>)) (\<lambda>A.
     bindE (sp_mul R Z) (\<lambda>RZ. bindE (d_mul RZ (log1m_d \<theta>)) (\<lambda>B.
     bindE (d_add A B) (\<lambda>S.
     each_row_add (m_map (\<lambda>x. dadd x (Fin log_lambda)) S) (log_v pi_v))))))"

definition E_step_sparse_bernoulli_undirected_nocovariate ::
  "sp_mat \<Rightarrow> sp_mat \<Rightarrow> mat \<Rightarrow> mat \<Rightarrow> real list \<Rightarrow> real \<Rightarrow> error + dbl matrix" where
  "E_step_sparse_bernoulli_undirected_nocovariate Y R Z \<theta> pi_v log_lambda =
     bindE (log_tau_undirected_nocovariate Y R Z \<theta> pi_v log_lambda)
       (each_row_apply softmax_row)"

definition log_tau_directed_nocovariate ::
  "sp_mat \<Rightarrow> sp_mat \<Rightarrow> mat \<Rightarrow> mat \<Rightarrow> real list \<Rightarrow> real \<Rightarrow> error + dbl matrix" where
  "log_tau_directed_nocovariate Y R Z \<theta> pi_v log_lambda =
     bindE (sp_mul Y Z) (\<lambda>YZ. bindE (d_mul YZ (m_trans (logit_d \<theta>))) (\<lambda>A.
     bindE (sp_mul R Z) (\<lambda>RZ. bindE (d_mul RZ (m_trans (log1m_d \<theta>))) (\<lambda>B.
     bindE (d_add A B) (\<lambda>S1.
     bindE (spt_mul Y Z) (\<lambda>YtZ. bindE (d_mul YtZ (logit_d \<theta>)) (\<lambda>C.
     bindE (d_add S1 C) (\<lambda>S2.
     bindE (spt_mul R Z) (\<lambda>RtZ. bindE (d_mul RtZ (log1m_d \<theta>)) (\<lambda>D.
     bindE (d_add S2 D) (\<lambda>S3.
     each_row_add (m_map (\<lambda>x. dadd x (Fin log_lambda)) S3) (log_v pi_v))))))))))))"

definition E_step_sparse_bernoulli_directed_nocovariate ::
  "sp_mat \<Rightarrow> sp_mat \<Rightarrow> mat \<Rightarrow> mat \<Rightarrow> real list \<Rightarrow> real \<Rightarrow> error + dbl matrix" where
  "E_step_sparse_bernoulli_directed_nocovariate Y R Z \<theta> pi_v log_lambda =
     bindE (log_tau_directed_nocovariate Y R Z \<theta> pi_v log_lambda)
       (each_row_apply softmax_row)"

text \<open>\<open>log_tau(i, q) -= v\<close>, the element access bounds-checked, the matrix updated in place.\<close>

definition m_sub_at :: "dbl matrix \<Rightarrow> nat \<Rightarrow> nat \<Rightarrow> dbl \<Rightarrow> error + dbl matrix" where
  "m_sub_at A i j v =
     (if i < n_rows A \<and> j < n_cols A
      then Inr (A\<lparr>mem := (mem A)[i + j * n_rows A := dsub (m_at A i j) v]\<rparr>)
      else Inl IndexOutOfBounds)"

text \<open>\<open>Z(j, l) * log(1 + exp(Gamma(q, l) + M(i, j)))\<close>.\<close>

definition penalty :: "mat \<Rightarrow> mat \<Rightarrow> mat \<Rightarrow> nat \<Rightarrow> nat \<Rightarrow> nat \<Rightarrow> nat \<Rightarrow> error + dbl" where
  "penalty Z Gamma M r c q l =
     bindE (m_elem Z c l) (\<lambda>b. bindE (m_elem Gamma q l) (\<lambda>g. bindE (m_elem M r c) (\<lambda>m.
       Inr (dmul (Fin b) (dlog (dadd (Fin 1) (dexp (dadd (Fin g) (Fin m)))))))))"

definition log_tau_undirected_covariates ::
  "sp_mat \<Rightarrow> sp_mat \<Rightarrow> mat \<Rightarrow> mat \<Rightarrow> mat \<Rightarrow> real list \<Rightarrow> error + dbl matrix" where
  "log_tau_undirected_covariates Y R M Z Gamma pi_v =
     bindE (sp_mul Y Z) (\<lambda>YZ. bindE (d_mul YZ (m_map Fin Gamma)) (\<lambda>log_tau0.
     bindE (foldE (\<lambda>lt e.
              foldE (\<lambda>lt' q.
                foldE (\<lambda>lt'' l.
                  bindE (penalty Z Gamma M (fst e) (fst (snd e)) q l) (\<lambda>v.
                    m_sub_at lt'' (fst e) q v))
                lt' [0..<n_cols Z])
              lt [0..<n_cols Z])
            log_tau0 (entries R)) (\<lambda>log_tau1.
     each_row_add log_tau1 (log_v pi_v))))"

definition E_step_sparse_bernoulli_undirected_covariates ::
  "sp_mat \<Rightarrow> sp_mat \<Rightarrow> mat \<Rightarrow> mat \<Rightarrow> mat \<Rightarrow> real list \<Rightarrow> error + dbl matrix" where
  "E_step_sparse_bernoulli_undirected_covariates Y R M Z Gamma pi_v =
     bindE (log_tau_undirected_covariates Y R M Z Gamma pi_v)
       (each_row_apply softmax_row)"

text \<open>
  The value of \<open>exp(x - m)\<close> for finite \<open>x\<close> and \<open>m\<close>: 0 where the difference overflows to
  \<open>-\<infinity>\<close>. The theorems on the softmax state its result with it.
\<close>

definition sexp :: "real \<Rightarrow> real \<Rightarrow> real" where
  "sexp m r = (if r - m < - max_double then 0 else exp (r - m))"

section \<open>Maximization step with covariates: objective and gradient\<close>

record grad_state =
  loglik :: real
  gr_gamma :: mat
  gr_beta :: "real list"

record objective_gradient =
  objective :: real
  gradient :: "real list"

text \<open>\<open>Z.row(i)\<close>, bounds-checked.\<close>

definition row_of :: "mat \<Rightarrow> nat \<Rightarrow> error + real list" where
  "row_of A i = (if i < n_rows A then Inr (m_row A i) else Inl IndexOutOfBounds)"

text \<open>\<open>as_scalar(beta.t() * phi)\<close>.\<close>

definition dot :: "real list \<Rightarrow> real list \<Rightarrow> error + real" where
  "dot a b =
     (if length a \<noteq> length b then Inl DimMismatch
      else Inr (sum_upto (length a) (\<lambda>k. a ! k * b ! k)))"

text \<open>\<open>Z.row(i).t() * Z.row(j)\<close>.\<close>

definition outer :: "real list \<Rightarrow> real list \<Rightarrow> mat" where
  "outer a b = mk_mat (length a) (length b) (\<lambda>i j. a ! i * b ! j)"

definition v_add :: "real list \<Rightarrow> real list \<Rightarrow> error + real list" where
  "v_add a b =
     (if length a \<noteq> length b then Inl DimMismatch
      else Inr (map (\<lambda>k. a ! k + b ! k) [0..<length a]))"

definition m_step_dyad ::
  "mat \<Rightarrow> real list \<Rightarrow> sp_mat \<Rightarrow> cube \<Rightarrow> mat \<Rightarrow> grad_state \<Rightarrow> nat \<times> nat \<times> real \<Rightarrow> error + grad_state"
  where
  "m_step_dyad gamma beta Y X Z s e =
     (if lower e then
        bindE (tube X (fst e) (fst (snd e))) (\<lambda>phi.
        bindE (dot beta phi) (\<lambda>mu.
        bindE (row_of Z (fst e)) (\<lambda>zi.
        bindE (row_of Z (fst (snd e))) (\<lambda>zj.
        bindE (sp_elem Y (fst e) (fst (snd e))) (\<lambda>y.
        bindE (schur (outer zi zj)
                 (m_map (\<lambda>g. y * (g + mu) - ln (1 + exp (g + mu))) gamma)) (\<lambda>T.
        bindE (schur (outer zi zj)
                 (m_map (\<lambda>g. y - 1 / (1 + exp (- (g + mu)))) gamma)) (\<lambda>delta.
        bindE (m_add (gr_gamma s) delta) (\<lambda>gg.
        bindE (v_add (gr_beta s) (map (\<lambda>p. accu delta * p) phi)) (\<lambda>gb.
          Inr \<lparr>loglik = loglik s + accu T, gr_gamma = gg, gr_beta = gb\<rparr>)))))))))
      else Inr s)"

text \<open>
  \<open>gamma(&param[0], Q, Q, true)\<close> and \<open>beta(&param[Q*Q], K, true)\<close> copy \<open>Q * Q\<close> and \<open>K\<close>
  doubles from the vector's memory with no check of its length.
\<close>

definition M_step_sparse_bernoulli_undirected_covariates ::
  "real list \<Rightarrow> sp_mat \<Rightarrow> sp_mat \<Rightarrow> cube \<Rightarrow> mat \<Rightarrow> error + objective_gradient" where
  "M_step_sparse_bernoulli_undirected_covariates param Y R X Z =
     (let Q = n_cols Z; K = c_n_slices X in
      if length param < Q * Q + K then Inl UndefinedRead
      else
        let gamma = \<lparr>n_rows = Q, n_cols = Q, mem = take (Q * Q) param\<rparr>;
            beta = take K (drop (Q * Q) param)
        in bindE (foldE (m_step_dyad gamma beta Y X Z)
                    \<lparr>loglik = 0, gr_gamma = mk_mat Q Q (\<lambda>i j. 0), gr_beta = replicate K 0\<rparr>
                    (entries R)) (\<lambda>s.
             Inr \<lparr>objective = - loglik s,
                  gradient = map uminus (mem (gr_gamma s) @ gr_beta s)\<rparr>))"

section \<open>The specification's formulas\<close>

text \<open>Entry \<open>(q, l)\<close> of \<open>Z'YZ\<close> as a double sum over the nodes.\<close>

definition ZtYZ :: "mat \<Rightarrow> sp_mat \<Rightarrow> nat \<Rightarrow> nat \<Rightarrow> real" where
  "ZtYZ Z Y q l =
     sum_upto (n_rows Z) (\<lambda>i. sum_upto (n_rows Z) (\<lambda>j. m_at Z i q * sp_at Y i j * m_at Z j l))"

text \<open>\<open>\<Sum>(Z log \<pi>)\<close>.\<close>

definition prior_term :: "mat \<Rightarrow> real list \<Rightarrow> real" where
  "prior_term Z pi_v = sum_upto (n_rows Z) (\<lambda>i. sum_upto (n_cols Z) (\<lambda>q. m_at Z i q * ln (pi_v ! q)))"

text \<open>\<open>0.5 \<Sum>(Z'YZ \<odot> log(\<theta>/(1-\<theta>))) + 0.5 \<Sum>(Z'RZ \<odot> log(1-\<theta>)) + \<Sum>(Z log \<pi>)\<close>.\<close>

definition spec_loglik_undirected :: "sp_mat \<Rightarrow> sp_mat \<Rightarrow> mat \<Rightarrow> mat \<Rightarrow> real list \<Rightarrow> real" where
  "spec_loglik_undirected Y R Z \<theta> pi_v =
     0.5 * sum_upto (n_cols Z) (\<lambda>q. sum_upto (n_cols Z) (\<lambda>l.
             ZtYZ Z Y q l * ln (m_at \<theta> q l / (1 - m_at \<theta> q l))))
   + 0.5 * sum_upto (n_cols Z) (\<lambda>q. sum_upto (n_cols Z) (\<lambda>l.
             ZtYZ Z R q l * ln (1 - m_at \<theta> q l)))
   + prior_term Z pi_v"

text \<open>The directed formula: the same sums without the factor \<open>0.5\<close>.\<close>

definition spec_loglik_directed :: "sp_mat \<Rightarrow> sp_mat \<Rightarrow> mat \<Rightarrow> mat \<Rightarrow> real list \<Rightarrow> real" where
  "spec_loglik_directed Y R Z \<theta> pi_v =
     sum_upto (n_cols Z) (\<lambda>q. sum_upto (n_cols Z) (\<lambda>l.
             ZtYZ Z Y q l * ln (m_at \<theta> q l / (1 - m_at \<theta> q l))))
   + sum_upto (n_cols Z) (\<lambda>q. sum_upto (n_cols Z) (\<lambda>l.
             ZtYZ Z R q l * ln (1 - m_at \<theta> q l)))
   + prior_term Z pi_v"

text \<open>The shapes the operations are specified for.\<close>

definition square_on :: "sp_mat \<Rightarrow> mat \<Rightarrow> bool" where
  "square_on Y Z = (sp_n_rows Y = n_rows Z \<and> sp_n_cols Y = n_rows Z)"

definition is_QxQ :: "mat \<Rightarrow> mat \<Rightarrow> bool" where
  "is_QxQ \<theta> Z = (n_rows \<theta> = n_cols Z \<and> n_cols \<theta> = n_cols Z)"

definition unit_open :: "mat \<Rightarrow> bool" where
  "unit_open \<theta> =
     list_all (\<lambda>q. list_all (\<lambda>l. 0 < m_at \<theta> q l \<and> m_at \<theta> q l < 1) [0..<n_cols \<theta>])
       [0..<n_rows \<theta>]"

definition unit_vec :: "real list \<Rightarrow> bool" where
  "unit_vec pi_v = list_all (\<lambda>p. 0 < p \<and> p < 1) pi_v"

definition sp_symmetric :: "sp_mat \<Rightarrow> bool" where
  "sp_symmetric Y =
     (sp_n_rows Y = sp_n_cols Y \<and>
      list_all (\<lambda>i. list_all (\<lambda>j. sp_at Y i j = sp_at Y j i) [0..<sp_n_cols Y])
        [0..<sp_n_rows Y])"

text \<open>
  A matrix of finite doubles; and a matrix of finite, non-negative doubles whose rows
  sum to 1.
\<close>

definition all_finite :: "dbl matrix \<Rightarrow> bool" where
  "all_finite S =
     list_all (\<lambda>i. list_all (\<lambda>j. is_fin (m_at S i j)) [0..<n_cols S]) [0..<n_rows S]"

definition row_stochastic :: "dbl matrix \<Rightarrow> bool" where
  "row_stochastic T =
     list_all (\<lambda>i. list_all (\<lambda>j. is_fin (m_at T i j) \<and> 0 \<le> val (m_at T i j)) [0..<n_cols T] \<and>
                    sum_upto (n_cols T) (\<lambda>j. val (m_at T i j)) = 1) [0..<n_rows T]"

section \<open>The specification of the covariate M-step\<close>

text \<open>
  The dyads the specification sums over: the places \<open>(i, j)\<close> with \<open>i > j\<close> where \<open>R\<close> is not
  zero. \<open>\<Gamma>\<close> is read from the parameter vector column by column, \<open>\<beta>\<close> follows it, and
  \<open>\<mu> = \<beta> \<cdot> X(i, j, \<cdot>)\<close>.
\<close>

definition spec_dyads :: "sp_mat \<Rightarrow> nat \<Rightarrow> (nat \<times> nat) list" where
  "spec_dyads R N =
     filter (\<lambda>d. snd d < fst d \<and> sp_at R (fst d) (snd d) \<noteq> 0) (List.product [0..<N] [0..<N])"

definition spec_Gamma :: "real list \<Rightarrow> nat \<Rightarrow> nat \<Rightarrow> nat \<Rightarrow> real" where
  "spec_Gamma param Q q l = param ! (q + l * Q)"

definition spec_mu :: "real list \<Rightarrow> nat \<Rightarrow> cube \<Rightarrow> nat \<Rightarrow> nat \<Rightarrow> real" where
  "spec_mu param Q X i j = sum_upto (c_n_slices X) (\<lambda>k. param ! (Q * Q + k) * c_at X i j k)"

definition sigmoid :: "real \<Rightarrow> real" where
  "sigmoid x = 1 / (1 + exp (- x))"

definition spec_dyad_loglik :: "real list \<Rightarrow> sp_mat \<Rightarrow> cube \<Rightarrow> mat \<Rightarrow> nat \<Rightarrow> nat \<Rightarrow> real" where
  "spec_dyad_loglik param Y X Z i j =
     sum_upto (n_cols Z) (\<lambda>q. sum_upto (n_cols Z) (\<lambda>l.
       m_at Z i q * m_at Z j l *
         (sp_at Y i j * (spec_Gamma param (n_cols Z) q l + spec_mu param (n_cols Z) X i j)
          - ln (1 + exp (spec_Gamma param (n_cols Z) q l + spec_mu param (n_cols Z) X i j)))))"

definition spec_delta :: "real list \<Rightarrow> sp_mat \<Rightarrow> cube \<Rightarrow> mat \<Rightarrow> nat \<Rightarrow> nat \<Rightarrow> nat \<Rightarrow> nat \<Rightarrow> real" where
  "spec_delta param Y X Z i j q l =
     m_at Z i q * m_at Z j l *
       (sp_at Y i j - sigmoid (spec_Gamma param (n_cols Z) q l + spec_mu param (n_cols Z) X i j))"

definition spec_sum_delta :: "real list \<Rightarrow> sp_mat \<Rightarrow> cube \<Rightarrow> mat \<Rightarrow> nat \<Rightarrow> nat \<Rightarrow> real" where
  "spec_sum_delta param Y X Z i j =
     sum_upto (n_cols Z) (\<lambda>q. sum_upto (n_cols Z) (\<lambda>l. spec_delta param Y X Z i j q l))"

definition spec_objective :: "real list \<Rightarrow> sp_mat \<Rightarrow> sp_mat \<Rightarrow> cube \<Rightarrow> mat \<Rightarrow> real" where
  "spec_objective param Y R X Z =
     - sum_list (map (\<lambda>d. spec_dyad_loglik param Y X Z (fst d) (snd d)) (spec_dyads R (n_rows Z)))"

definition spec_grad_gamma :: "real list \<Rightarrow> sp_mat \<Rightarrow> sp_mat \<Rightarrow> cube \<Rightarrow> mat \<Rightarrow> nat \<Rightarrow> nat \<Rightarrow> real" where
  "spec_grad_gamma param Y R X Z q l =
     sum_list (map (\<lambda>d. spec_delta param Y X Z (fst d) (snd d) q l) (spec_dyads R (n_rows Z)))"

definition spec_grad_beta :: "real list \<Rightarrow> sp_mat \<Rightarrow> sp_mat \<Rightarrow> cube \<Rightarrow> mat \<Rightarrow> nat \<Rightarrow> real" where
  "spec_grad_beta param Y R X Z k =
     sum_list (map (\<lambda>d. spec_sum_delta param Y X Z (fst d) (snd d) * c_at X (fst d) (snd d) k)
       (spec_dyads R (n_rows Z)))"

definition spec_gradient :: "real list \<Rightarrow> sp_mat \<Rightarrow> sp_mat \<Rightarrow> cube \<Rightarrow> mat \<Rightarrow> real list" where
  "spec_gradient param Y R X Z =
     map uminus
       (concat (map (\<lambda>l. map (\<lambda>q. spec_grad_gamma param Y R X Z q l) [0..<n_cols Z]) [0..<n_cols Z])
        @ map (spec_grad_beta param Y R X Z) [0..<c_n_slices X])"

definition m_step_cov_shapes :: "real list \<Rightarrow> sp_mat \<Rightarrow> sp_mat \<Rightarrow> cube \<Rightarrow> mat \<Rightarrow> bool" where
  "m_step_cov_shapes param Y R X Z =
     (length param = n_cols Z * n_cols Z + c_n_slices X \<and> square_on Y Z \<and> square_on R Z \<and>
      sp_wf R \<and> c_n_rows X = n_rows Z \<and> c_n_cols X = n_rows Z)"

text \<open>Two sparse matrices of the same size that agree below the diagonal.\<close>

definition lower_agree :: "sp_mat \<Rightarrow> sp_mat \<Rightarrow> bool" where
  "lower_agree A B =
     (sp_n_rows A = sp_n_rows B \<and> sp_n_cols A = sp_n_cols B \<and>
      list_all (\<lambda>i. list_all (\<lambda>j. sp_at A i j = sp_at B i j) [0..<i]) [0..<sp_n_rows A])"

section \<open>Concrete inputs\<close>

text \<open>
  Three nodes, two clusters, nodes 1 and 2 in the first cluster and node 3 in the second,
  one undirected edge between node 1 and node 3, every dyad observed.
\<close>

definition Z3 :: mat where
  "Z3 = mat_of_rows 3 2 [[1, 0], [1, 0], [0, 1]]"

definition Y3 :: sp_mat where
  "Y3 = \<lparr>sp_n_rows = 3, sp_n_cols = 3, entries = [(2, 0, 1), (0, 2, 1)]\<rparr>"

definition R3 :: sp_mat where
  "R3 = \<lparr>sp_n_rows = 3, sp_n_cols = 3,
         entries = [(1, 0, 1), (2, 0, 1), (0, 1, 1), (2, 1, 1), (0, 2, 1), (1, 2, 1)]\<rparr>"

definition theta2 :: mat where
  "theta2 = mat_of_rows 2 2 [[1 / 2, 1 / 2], [1 / 2, 1 / 2]]"

definition pi2 :: "real list" where
  "pi2 = [1 / 2, 1 / 2]"

definition M3 :: mat where
  "M3 = mat_of_rows 3 3 [[0, 0, 0], [0, 0, 0], [0, 0, 0]]"

text \<open>
  Two nodes in one cluster, one observed edge between them, one covariate equal to 1 on
  every dyad; a parameter vector one entry longer than \<open>Q * Q + K = 2\<close>; a \<open>1 \<times> 2\<close>
  matrix in the place of \<open>\<theta>\<close>.
\<close>

definition Z1 :: mat where
  "Z1 = mat_of_rows 2 1 [[1], [1]]"

definition Y2 :: sp_mat where
  "Y2 = \<lparr>sp_n_rows = 2, sp_n_cols = 2, entries = [(1, 0, 1), (0, 1, 1)]\<rparr>"

definition X2 :: cube where
  "X2 = \<lparr>c_n_rows = 2, c_n_cols = 2, c_n_slices = 1, c_mem = [1, 1, 1, 1]\<rparr>"

definition param3 :: "real list" where
  "param3 = [0, 0, 5]"

definition theta12 :: mat where
  "theta12 = mat_of_rows 1 2 [[1 / 2, 1 / 2]]"

text \<open>
  Matrices that agree with \<open>Y3\<close> and \<open>R3\<close> below the diagonal and differ on it and above it;
  one covariate on three nodes and a parameter vector of length \<open>2 * 2 + 1\<close>.
\<close>

definition Y3b :: sp_mat where
  "Y3b = \<lparr>sp_n_rows = 3, sp_n_cols = 3, entries = [(2, 0, 1), (1, 1, 7)]\<rparr>"

definition R3b :: sp_mat where
  "R3b = \<lparr>sp_n_rows = 3, sp_n_cols = 3, entries = [(1, 0, 1), (2, 0, 1), (2, 1, 1)]\<rparr>"

definition X3 :: cube where
  "X3 = \<lparr>c_n_rows = 3, c_n_cols = 3, c_n_slices = 1, c_mem = [1, 1, 1, 1, 1, 1, 1, 1, 1]\<rparr>"

definition param5 :: "real list" where
  "param5 = [0, 0, 0, 0, 0]"

text \<open>Two nodes and one cluster, for the expectation step.\<close>

definition M2 :: mat where
  "M2 = mat_of_rows 2 2 [[0, 0], [0, 0]]"

definition Gamma800 :: mat where
  "Gamma800 = mat_of_rows 1 1 [[800]]"

definition Gamma0 :: mat where
  "Gamma0 = mat_of_rows 1 1 [[0]]"

definition theta11 :: mat where
  "theta11 = mat_of_rows 1 1 [[1 / 2]]"

definition pi1 :: "real list" where
  "pi1 = [1 / 2]"

section \<open>Basic facts\<close>

lemma bindE_Inr [simp]: "bindE (Inr x) f = f x"
  by (simp add: bindE_def)

lemma bindE_Inl [simp]: "bindE (Inl e) f = Inl e"
  by (simp add: bindE_def)

lemma bindE_eq_Inr: "bindE m f = Inr y \<longleftrightarrow> (\<exists>x. m = Inr x \<and> f x = Inr y)"
  by (cases m) simp_all

lemma sum_upto_sum: "sum_upto n f = (\<Sum>k<n. f k)"
  by (simp add: sum_upto_def interv_sum_list_conv_sum_set_nat atLeast0LessThan)

lemma sum_upto_0 [simp]: "sum_upto 0 f = 0"
  by (simp add: sum_upto_def)

lemma sum_upto_Suc [simp]: "sum_upto (Suc n) f = sum_upto n f + f n"
  by (simp add: sum_upto_def)

lemma m_at_mk_mat [simp]:
  assumes "i < r" "j < c"
  shows "m_at (mk_mat r c f) i j = f i j"
proof -
  have "i + j * r < r + j * r" using assms by simp
  also have "\<dots> = Suc j * r" by simp
  also have "\<dots> \<le> c * r" using assms by (intro mult_le_mono1) simp
  finally have lt: "i + j * r < r * c" by (simp add: mult.commute)
  show ?thesis using lt assms by (simp add: m_at_def mk_mat_def)
qed

lemma mk_mat_sizes [simp]:
  "n_rows (mk_mat r c f) = r" "n_cols (mk_mat r c f) = c"
  by (simp_all add: mk_mat_def)

lemma mk_mat_cong:
  assumes "\<And>i j. i < r \<Longrightarrow> j < c \<Longrightarrow> f i j = g i j"
  shows "mk_mat r c f = mk_mat r c g"
proof -
  have "f (k mod r) (k div r) = g (k mod r) (k div r)" if "k < r * c" for k
  proof -
    have "0 < r" using that by (cases r) auto
    moreover have "k div r < c" using that by (simp add: less_mult_imp_div_less mult.commute)
    ultimately show ?thesis using assms by simp
  qed
  then show ?thesis by (simp add: mk_mat_def)
qed

lemma mat_of_rows_sizes [simp]:
  "n_rows (mat_of_rows r c rows) = r" "n_cols (mat_of_rows r c rows) = c"
  by (simp_all add: mat_of_rows_def)

lemma m_at_mat_of_rows [simp]:
  "i < r \<Longrightarrow> j < c \<Longrightarrow> m_at (mat_of_rows r c rows) i j = rows ! i ! j"
  by (simp add: mat_of_rows_def)

lemma m_map_sizes [simp]: "n_rows (m_map g A) = n_rows A" "n_cols (m_map g A) = n_cols A"
  by (simp_all add: m_map_def)

lemma m_at_m_map [simp]:
  "i < n_rows A \<Longrightarrow> j < n_cols A \<Longrightarrow> m_at (m_map g A) i j = g (m_at A i j)"
  by (simp add: m_map_def)

lemma m_trans_sizes [simp]: "n_rows (m_trans A) = n_cols A" "n_cols (m_trans A) = n_rows A"
  by (simp_all add: m_trans_def)

lemma m_at_trans [simp]:
  "i < n_cols A \<Longrightarrow> j < n_rows A \<Longrightarrow> m_at (m_trans A) i j = m_at A j i"
  by (simp add: m_trans_def)

section \<open>The quadratic form and the closed-form M-step\<close>

lemma quad_eq:
  assumes "square_on Y Z"
  shows "quad Z Y = Inr (mk_mat (n_cols Z) (n_cols Z) (ZtYZ Z Y))"
proof -
  let ?N = "n_rows Z"
  have "(\<Sum>j<?N. (\<Sum>i<?N. m_at (m_trans Z) q i * sp_at Y i j) * m_at Z j l)
        = (\<Sum>i<?N. \<Sum>j<?N. m_at Z i q * sp_at Y i j * m_at Z j l)"
    if "q < n_cols Z" for q l
  proof -
    have "(\<Sum>j<?N. (\<Sum>i<?N. m_at (m_trans Z) q i * sp_at Y i j) * m_at Z j l)
        = (\<Sum>j<?N. \<Sum>i<?N. m_at Z i q * sp_at Y i j * m_at Z j l)"
      using that by (simp add: sum_distrib_right)
    also have "\<dots> = (\<Sum>i<?N. \<Sum>j<?N. m_at Z i q * sp_at Y i j * m_at Z j l)"
      by (rule sum.swap)
    finally show ?thesis .
  qed
  then show ?thesis
    using assms
    by (auto simp: quad_def mul_sp_def m_mul_def square_on_def ZtYZ_def sum_upto_sum
        intro!: mk_mat_cong)
qed

lemma M_step_eq:
  assumes "square_on Y Z" "square_on R Z"
  shows "M_step_sparse_bernoulli_undirected_nocovariate Y R Z =
     Inr (mk_mat (n_cols Z) (n_cols Z) (\<lambda>q l. ddiv (ZtYZ Z Y q l) (ZtYZ Z R q l)))"
  using assms
  by (auto simp: M_step_sparse_bernoulli_undirected_nocovariate_def quad_eq m_div_def
      intro!: mk_mat_cong)

lemma inputs3:
  "square_on Y3 Z3" "square_on R3 Z3" "is_QxQ theta2 Z3" "length pi2 = n_cols Z3"
  "unit_open theta2" "unit_vec pi2" "sp_symmetric Y3" "sp_symmetric R3"
  by (simp_all add: square_on_def is_QxQ_def unit_open_def unit_vec_def sp_symmetric_def
       Y3_def R3_def Z3_def theta2_def pi2_def eval_nat_numeral sp_at_def)

lemma ZtYZ_3:
  "ZtYZ Z3 Y3 0 0 = 0" "ZtYZ Z3 Y3 0 1 = 1" "ZtYZ Z3 Y3 1 0 = 1" "ZtYZ Z3 Y3 1 1 = 0"
  "ZtYZ Z3 R3 0 0 = 2" "ZtYZ Z3 R3 0 1 = 2" "ZtYZ Z3 R3 1 0 = 2" "ZtYZ Z3 R3 1 1 = 0"
  by (simp_all add: ZtYZ_def eval_nat_numeral Z3_def sp_at_def Y3_def R3_def)

text \<open>
  C6. On three nodes in two clusters \<open>{1, 2}\<close> and \<open>{3}\<close>, with one undirected edge between
  node 1 and node 3 and every off-diagonal dyad observed, the closed-form M-step returns a
  2 by 2 matrix with \<open>\<theta>[0,1] = \<theta>[1,0] = 1/2\<close> and \<open>\<theta>[0,0] = 0\<close>.
\<close>

theorem m_step_three_nodes:
  "\<exists>\<theta>. M_step_sparse_bernoulli_undirected_nocovariate Y3 R3 Z3 = Inr \<theta> \<and>
     n_rows \<theta> = 2 \<and> n_cols \<theta> = 2 \<and>
     m_at \<theta> 0 1 = Finite (1 / 2) \<and> m_at \<theta> 1 0 = Finite (1 / 2) \<and> m_at \<theta> 0 0 = Finite 0"
proof -
  have sq: "square_on Y3 Z3" "square_on R3 Z3"
    by (simp_all add: square_on_def Y3_def R3_def Z3_def)
  have nc: "n_cols Z3 = 2" "n_rows Z3 = 3"
    by (simp_all add: Z3_def)
  show ?thesis
    using ZtYZ_3 by (simp add: M_step_eq[OF sq] nc ddiv_def)
qed

text \<open>
  C4. For \<open>N \<times> N\<close> matrices \<open>Y\<close> and \<open>R\<close> and an \<open>N \<times> Q\<close> matrix \<open>Z\<close>, the closed-form M-step
  returns the \<open>Q \<times> Q\<close> matrix whose entry \<open>(q, l)\<close> is the quotient of the entries \<open>(q, l)\<close>
  of \<open>Z'YZ\<close> and \<open>Z'RZ\<close>, and the directed and the undirected operation return the same.
\<close>

theorem m_step_closed_form:
  assumes "square_on Y Z" "square_on R Z"
  shows "(\<exists>\<theta>. M_step_sparse_bernoulli_undirected_nocovariate Y R Z = Inr \<theta> \<and>
             n_rows \<theta> = n_cols Z \<and> n_cols \<theta> = n_cols Z \<and>
             (\<forall>q<n_cols Z. \<forall>l<n_cols Z. m_at \<theta> q l = ddiv (ZtYZ Z Y q l) (ZtYZ Z R q l))) \<and>
         M_step_sparse_bernoulli_directed_nocovariate Y R Z =
           M_step_sparse_bernoulli_undirected_nocovariate Y R Z"
  by (simp add: M_step_eq[OF assms] M_step_sparse_bernoulli_directed_nocovariate_def
       M_step_sparse_bernoulli_undirected_nocovariate_def[symmetric])

theorem m_step_closed_form_witness:
  "M_step_sparse_bernoulli_directed_nocovariate Y3 R3 Z3 =
     M_step_sparse_bernoulli_undirected_nocovariate Y3 R3 Z3 \<and>
   (\<exists>\<theta>. M_step_sparse_bernoulli_undirected_nocovariate Y3 R3 Z3 = Inr \<theta> \<and>
        m_at \<theta> 1 0 = Finite (1 / 2))"
  using m_step_closed_form[OF inputs3(1,2)] ZtYZ_3 by (auto simp: Z3_def ddiv_def)

text \<open>
  C9. The directed M-step "with covariates" takes \<open>(Y, R, Z)\<close> only and returns what the
  directed M-step without covariates returns: on \<open>N \<times> N\<close> matrices \<open>Y\<close>, \<open>R\<close> and an
  \<open>N \<times> Q\<close> matrix \<open>Z\<close>, the matrix of the quotients of \<open>Z'YZ\<close> by \<open>Z'RZ\<close>.
\<close>

theorem m_step_directed_covariates_same:
  assumes "square_on Y Z" "square_on R Z"
  shows "M_step_sparse_bernoulli_directed_covariates Y R Z =
           M_step_sparse_bernoulli_directed_nocovariate Y R Z \<and>
         (\<exists>\<theta>. M_step_sparse_bernoulli_directed_covariates Y R Z = Inr \<theta> \<and>
             n_rows \<theta> = n_cols Z \<and> n_cols \<theta> = n_cols Z \<and>
             (\<forall>q<n_cols Z. \<forall>l<n_cols Z. m_at \<theta> q l = ddiv (ZtYZ Z Y q l) (ZtYZ Z R q l)))"
  using M_step_eq[OF assms]
  by (simp add: M_step_sparse_bernoulli_directed_nocovariate_def
        M_step_sparse_bernoulli_directed_covariates_def
       M_step_sparse_bernoulli_undirected_nocovariate_def)

theorem m_step_directed_covariates_same_witness:
  "M_step_sparse_bernoulli_directed_covariates Y3 R3 Z3 =
     M_step_sparse_bernoulli_directed_nocovariate Y3 R3 Z3 \<and>
   (\<exists>\<theta>. M_step_sparse_bernoulli_directed_covariates Y3 R3 Z3 = Inr \<theta> \<and>
        m_at \<theta> 0 1 = Finite (1 / 2))"
proof -
  have nc: "n_cols Z3 = 2" by (simp add: Z3_def)
  from m_step_directed_covariates_same[OF inputs3(1,2)] obtain \<theta> where
    eq: "M_step_sparse_bernoulli_directed_covariates Y3 R3 Z3 =
           M_step_sparse_bernoulli_directed_nocovariate Y3 R3 Z3"
    and r: "M_step_sparse_bernoulli_directed_covariates Y3 R3 Z3 = Inr \<theta>"
    and e: "\<forall>q<n_cols Z3. \<forall>l<n_cols Z3. m_at \<theta> q l = ddiv (ZtYZ Z3 Y3 q l) (ZtYZ Z3 R3 q l)"
    by blast
  from e have "m_at \<theta> 0 1 = ddiv (ZtYZ Z3 Y3 0 1) (ZtYZ Z3 R3 0 1)"
    by (simp add: nc)
  then have "m_at \<theta> 0 1 = Finite (1 / 2)"
    using ZtYZ_3 by (simp add: ddiv_def)
  with eq r show ?thesis by metis
qed

text \<open>
  C7. Where an entry of \<open>Z'RZ\<close> is zero, the closed-form M-step raises no error and returns
  a matrix whose entry there is not finite: NaN when the entry of \<open>Z'YZ\<close> is zero too, an
  infinity otherwise. Every entry where \<open>Z'RZ\<close> is not zero is the finite quotient.
\<close>

theorem m_step_zero_denominator:
  assumes "square_on Y Z" "square_on R Z" "q < n_cols Z" "l < n_cols Z" "ZtYZ Z R q l = 0"
  shows "\<exists>\<theta>. M_step_sparse_bernoulli_undirected_nocovariate Y R Z = Inr \<theta> \<and>
           m_at \<theta> q l = (if ZtYZ Z Y q l = 0 then NaN else Infinite) \<and>
           (\<forall>q'<n_cols Z. \<forall>l'<n_cols Z. ZtYZ Z R q' l' \<noteq> 0 \<longrightarrow>
               m_at \<theta> q' l' = Finite (ZtYZ Z Y q' l' / ZtYZ Z R q' l'))"
  using assms(3-5) by (simp add: M_step_eq[OF assms(1,2)] ddiv_def)

lemma ZtYZ_3b: "ZtYZ Z3 R3b 0 1 = 0"
  by (simp add: ZtYZ_def eval_nat_numeral Z3_def sp_at_def R3b_def)

theorem m_step_zero_denominator_witness:
  "(\<exists>\<theta>. M_step_sparse_bernoulli_undirected_nocovariate Y3 R3 Z3 = Inr \<theta> \<and>
        m_at \<theta> 1 1 = NaN \<and> m_at \<theta> 0 1 = Finite (1 / 2)) \<and>
   (\<exists>\<theta>. M_step_sparse_bernoulli_undirected_nocovariate Y3 R3b Z3 = Inr \<theta> \<and>
        m_at \<theta> 0 1 = Infinite)"
proof
  show "\<exists>\<theta>. M_step_sparse_bernoulli_undirected_nocovariate Y3 R3 Z3 = Inr \<theta> \<and>
        m_at \<theta> 1 1 = NaN \<and> m_at \<theta> 0 1 = Finite (1 / 2)"
    using m_step_zero_denominator[OF inputs3(1,2), of 1 1] ZtYZ_3 by (auto simp: Z3_def)
  show "\<exists>\<theta>. M_step_sparse_bernoulli_undirected_nocovariate Y3 R3b Z3 = Inr \<theta> \<and>
        m_at \<theta> 0 1 = Infinite"
    using m_step_zero_denominator[of Y3 Z3 R3b 0 1] inputs3(1) ZtYZ_3 ZtYZ_3b
    by (auto simp: square_on_def R3b_def Z3_def)
qed

section \<open>The likelihood without covariates\<close>

lemma accu_mk_mat: "accu (mk_mat r c f) = (\<Sum>j<c. \<Sum>i<r. f i j)"
  by (simp add: accu_def sum_upto_sum)

lemma logit_sizes [simp]: "n_rows (logit_m \<theta>) = n_rows \<theta>" "n_cols (logit_m \<theta>) = n_cols \<theta>"
  "n_rows (log1m_m \<theta>) = n_rows \<theta>" "n_cols (log1m_m \<theta>) = n_cols \<theta>"
  by (simp_all add: logit_m_def log1m_m_def)

lemma schur_quad:
  assumes "n_rows B = Q" "n_cols B = Q"
  shows "schur (mk_mat Q Q f) B = Inr (mk_mat Q Q (\<lambda>q l. f q l * m_at B q l))"
  using assms by (auto simp: schur_def intro!: mk_mat_cong)

lemma mat_vec_prior:
  assumes "length pi_v = n_cols Z"
  shows "mat_vec Z (map ln pi_v) = Inr (map (\<lambda>i. sum_upto (n_cols Z) (\<lambda>q. m_at Z i q * ln (pi_v ! q))) [0..<n_rows Z])"
  using assms by (simp add: mat_vec_def sum_upto_sum)

lemma sum_list_prior:
  "sum_list (map (\<lambda>i. sum_upto (n_cols Z) (\<lambda>q. m_at Z i q * ln (pi_v ! q))) [0..<n_rows Z]) = prior_term Z pi_v"
  by (simp add: prior_term_def sum_upto_def)

lemma vLL_terms:
  assumes "is_QxQ \<theta> Z"
  shows "accu (mk_mat (n_cols Z) (n_cols Z) (\<lambda>q l. f q l * m_at (logit_m \<theta>) q l))
      = sum_upto (n_cols Z) (\<lambda>q. sum_upto (n_cols Z) (\<lambda>l. f q l * ln (m_at \<theta> q l / (1 - m_at \<theta> q l))))"
   and "accu (mk_mat (n_cols Z) (n_cols Z) (\<lambda>q l. f q l * m_at (log1m_m \<theta>) q l))
      = sum_upto (n_cols Z) (\<lambda>q. sum_upto (n_cols Z) (\<lambda>l. f q l * ln (1 - m_at \<theta> q l)))"
proof -
  let ?Q = "n_cols Z"
  have "(\<Sum>l<?Q. \<Sum>q<?Q. f q l * m_at (logit_m \<theta>) q l)
      = (\<Sum>l<?Q. \<Sum>q<?Q. f q l * ln (m_at \<theta> q l / (1 - m_at \<theta> q l)))"
    using assms by (simp add: is_QxQ_def logit_m_def)
  also have "\<dots> = (\<Sum>q<?Q. \<Sum>l<?Q. f q l * ln (m_at \<theta> q l / (1 - m_at \<theta> q l)))"
    by (rule sum.swap)
  finally show "accu (mk_mat ?Q ?Q (\<lambda>q l. f q l * m_at (logit_m \<theta>) q l))
      = sum_upto ?Q (\<lambda>q. sum_upto ?Q (\<lambda>l. f q l * ln (m_at \<theta> q l / (1 - m_at \<theta> q l))))"
    by (simp add: accu_mk_mat sum_upto_sum)
  have "(\<Sum>l<?Q. \<Sum>q<?Q. f q l * m_at (log1m_m \<theta>) q l)
      = (\<Sum>l<?Q. \<Sum>q<?Q. f q l * ln (1 - m_at \<theta> q l))"
    using assms by (simp add: is_QxQ_def log1m_m_def)
  also have "\<dots> = (\<Sum>q<?Q. \<Sum>l<?Q. f q l * ln (1 - m_at \<theta> q l))"
    by (rule sum.swap)
  finally show "accu (mk_mat ?Q ?Q (\<lambda>q l. f q l * m_at (log1m_m \<theta>) q l))
      = sum_upto ?Q (\<lambda>q. sum_upto ?Q (\<lambda>l. f q l * ln (1 - m_at \<theta> q l)))"
    by (simp add: accu_mk_mat sum_upto_sum)
qed

lemma vLL_undirected_eq:
  assumes "square_on Y Z" "square_on R Z" "is_QxQ \<theta> Z" "length pi_v = n_cols Z"
  shows "vLL_complete_sparse_bernoulli_undirected_nocovariate Y R Z \<theta> pi_v =
           Inr (spec_loglik_undirected Y R Z \<theta> pi_v)"
proof -
  have d: "n_rows (logit_m \<theta>) = n_cols Z" "n_cols (logit_m \<theta>) = n_cols Z"
       "n_rows (log1m_m \<theta>) = n_cols Z" "n_cols (log1m_m \<theta>) = n_cols Z"
    using assms(3) by (simp_all add: is_QxQ_def)
  show ?thesis
    unfolding vLL_complete_sparse_bernoulli_undirected_nocovariate_def spec_loglik_undirected_def
    by (simp add: quad_eq[OF assms(1)] quad_eq[OF assms(2)] schur_quad[OF d(1,2)] schur_quad[OF d(3,4)]
        mat_vec_prior[OF assms(4)] sum_list_prior vLL_terms[OF assms(3)])
qed

lemma vLL_directed_eq:
  assumes "square_on Y Z" "square_on R Z" "is_QxQ \<theta> Z" "length pi_v = n_cols Z"
  shows "vLL_complete_sparse_bernoulli_directed_nocovariate Y R Z \<theta> pi_v =
           Inr (spec_loglik_directed Y R Z \<theta> pi_v)"
proof -
  have d: "n_rows (logit_m \<theta>) = n_cols Z" "n_cols (logit_m \<theta>) = n_cols Z"
       "n_rows (log1m_m \<theta>) = n_cols Z" "n_cols (log1m_m \<theta>) = n_cols Z"
    using assms(3) by (simp_all add: is_QxQ_def)
  show ?thesis
    unfolding vLL_complete_sparse_bernoulli_directed_nocovariate_def spec_loglik_directed_def
    by (simp add: quad_eq[OF assms(1)] quad_eq[OF assms(2)] schur_quad[OF d(1,2)] schur_quad[OF d(3,4)]
        mat_vec_prior[OF assms(4)] sum_list_prior vLL_terms[OF assms(3)])
qed

lemma prior_3: "prior_term Z3 pi2 = 3 * ln (1 / 2)"
  by (simp add: prior_term_def Z3_def pi2_def eval_nat_numeral)

lemma spec_3: "spec_loglik_undirected Y3 R3 Z3 theta2 pi2 = 6 * ln (1 / 2)"
  using ZtYZ_3
  by (simp add: spec_loglik_undirected_def prior_3) (simp add: Z3_def theta2_def eval_nat_numeral)

text \<open>
  C1. For \<open>N \<times> N\<close> sparse matrices \<open>Y\<close> and \<open>R\<close>, an \<open>N \<times> Q\<close> matrix \<open>Z\<close>, a \<open>Q \<times> Q\<close> matrix \<open>\<theta>\<close>
  with entries in \<open>(0, 1)\<close> and a vector \<open>\<pi>\<close> of length \<open>Q\<close> with entries in \<open>(0, 1)\<close>, the
  undirected likelihood evaluator without covariates returns
  \<open>0.5 \<Sum>(Z'YZ \<odot> log(\<theta>/(1-\<theta>))) + 0.5 \<Sum>(Z'RZ \<odot> log(1-\<theta>)) + \<Sum>(Z log \<pi>)\<close>.
\<close>

theorem vLL_undirected_nocovariate_formula:
  assumes "square_on Y Z" "square_on R Z" "is_QxQ \<theta> Z" "length pi_v = n_cols Z"
    and "unit_open \<theta>" "unit_vec pi_v"
  shows "vLL_complete_sparse_bernoulli_undirected_nocovariate Y R Z \<theta> pi_v =
           Inr (spec_loglik_undirected Y R Z \<theta> pi_v)"
  using assms(1-4) by (rule vLL_undirected_eq)

theorem vLL_undirected_nocovariate_formula_witness:
  "vLL_complete_sparse_bernoulli_undirected_nocovariate Y3 R3 Z3 theta2 pi2 = Inr (6 * ln (1 / 2))"
  using vLL_undirected_nocovariate_formula[OF inputs3(1-6)] by (simp add: spec_3)

text \<open>
  C5. For symmetric \<open>Y\<close> and \<open>R\<close> and \<open>Z\<close>, \<open>\<theta>\<close>, \<open>\<pi>\<close> as above, the directed likelihood minus the
  prior term \<open>\<Sum>(Z log \<pi>)\<close> is twice the undirected likelihood minus the prior term.
\<close>

theorem vLL_directed_twice_undirected:
  assumes "square_on Y Z" "square_on R Z" "is_QxQ \<theta> Z" "length pi_v = n_cols Z"
    and "unit_open \<theta>" "unit_vec pi_v" "sp_symmetric Y" "sp_symmetric R"
  shows "\<exists>d u. vLL_complete_sparse_bernoulli_directed_nocovariate Y R Z \<theta> pi_v = Inr d \<and>
               vLL_complete_sparse_bernoulli_undirected_nocovariate Y R Z \<theta> pi_v = Inr u \<and>
               d - prior_term Z pi_v = 2 * (u - prior_term Z pi_v)"
  by (simp add: vLL_undirected_eq[OF assms(1-4)] vLL_directed_eq[OF assms(1-4)]
      spec_loglik_directed_def spec_loglik_undirected_def)

theorem vLL_directed_twice_undirected_witness:
  "\<exists>d u. vLL_complete_sparse_bernoulli_directed_nocovariate Y3 R3 Z3 theta2 pi2 = Inr d \<and>
               vLL_complete_sparse_bernoulli_undirected_nocovariate Y3 R3 Z3 theta2 pi2 = Inr u \<and>
               d - prior_term Z3 pi2 = 2 * (u - prior_term Z3 pi2)"
  using vLL_directed_twice_undirected[OF inputs3] .

lemma Z1_facts: "n_rows Z1 = 2" "n_cols Z1 = 1" "m_row Z1 (Suc 0) = [1]" "m_row Z1 0 = [1]"
  by (simp_all add: m_row_def Z1_def)

lemma accu_1x1 [simp]: "accu (mk_mat (Suc 0) (Suc 0) f) = f 0 0"
  by (simp add: accu_def)

lemma mk_mat_1x1 [simp]: "mem (mk_mat (Suc 0) (Suc 0) f) = [f 0 0]"
  by (simp add: mk_mat_def)

section \<open>Only the entries below the diagonal are read\<close>

lemma foldE_filter:
  assumes "\<And>s x. \<not> P x \<Longrightarrow> f s x = Inr s"
  shows "foldE f s xs = foldE f s (filter P xs)"
proof (induction xs arbitrary: s)
  case Nil then show ?case by simp
next
  case (Cons x xs)
  then show ?case using assms by (cases "P x") (simp_all split: sum.splits)
qed

lemma foldE_cong:
  assumes "\<And>s x. x \<in> set xs \<Longrightarrow> f s x = g s x"
  shows "foldE f s xs = foldE g s xs"
  using assms
proof (induction xs arbitrary: s)
  case Nil then show ?case by simp
next
  case (Cons x xs)
  then show ?case by (simp split: sum.splits)
qed

lemma col_major_irrefl: "\<not> col_major a a"
  by (simp add: col_major_def)

lemma col_major_asym: "col_major a b \<Longrightarrow> \<not> col_major b a"
  by (auto simp: col_major_def)

lemma sorted_col_major_unique:
  assumes "sorted_wrt col_major xs" "sorted_wrt col_major ys" "set xs = set ys"
  shows "xs = ys"
  using assms
proof (induction xs arbitrary: ys)
  case Nil then show ?case by simp
next
  case (Cons x xs)
  then obtain y ys' where ys: "ys = y # ys'" by (cases ys) auto
  have xy: "x = y"
  proof (rule ccontr)
    assume ne: "x \<noteq> y"
    then have "x \<in> set ys'" "y \<in> set xs" using Cons.prems(3) ys by auto
    then have "col_major y x" "col_major x y" using Cons.prems(1,2) ys by auto
    then show False using col_major_asym by blast
  qed
  have "x \<notin> set xs" using Cons.prems(1) col_major_irrefl[of x] by auto
  moreover have "y \<notin> set ys'" using Cons.prems(2) ys col_major_irrefl[of y] by auto
  ultimately have "set xs = set ys'" using Cons.prems(3) ys xy by auto
  then have "xs = ys'" using Cons.IH[of ys'] Cons.prems(1,2) ys by simp
  with xy ys show ?case by simp
qed

lemma find_sorted:
  assumes "sorted_wrt col_major es" "e \<in> set es"
  shows "find (\<lambda>x. fst x = fst e \<and> fst (snd x) = fst (snd e)) es = Some e"
  using assms
proof (induction es)
  case Nil then show ?case by simp
next
  case (Cons a es)
  show ?case
  proof (cases "a = e")
    case True then show ?thesis by simp
  next
    case False
    then have e: "e \<in> set es" using Cons.prems by simp
    then have "col_major a e" using Cons.prems(1) by simp
    then have "\<not> (fst a = fst e \<and> fst (snd a) = fst (snd e))" by (auto simp: col_major_def)
    moreover have "find (\<lambda>x. fst x = fst e \<and> fst (snd x) = fst (snd e)) es = Some e"
      using Cons.IH e Cons.prems(1) by simp
    ultimately show ?thesis by auto
  qed
qed

lemma sp_at_stored:
  assumes "sp_wf A" "e \<in> set (entries A)"
  shows "sp_at A (fst e) (fst (snd e)) = snd (snd e)" "snd (snd e) \<noteq> 0"
    "fst e < sp_n_rows A" "fst (snd e) < sp_n_cols A"
  using assms find_sorted[of "entries A" e]
  by (auto simp: sp_wf_def sp_at_def list_all_iff)

lemma sp_at_nonzero:
  assumes "sp_at A i j \<noteq> 0"
  shows "(i, j, sp_at A i j) \<in> set (entries A)"
proof -
  from assms obtain e where e: "find (\<lambda>x. fst x = i \<and> fst (snd x) = j) (entries A) = Some e"
    by (auto simp: sp_at_def split: option.splits)
  then have "e \<in> set (entries A)" "fst e = i" "fst (snd e) = j"
    by (auto simp: find_Some_iff in_set_conv_nth)
  moreover have "sp_at A i j = snd (snd e)" using e by (simp add: sp_at_def)
  ultimately show ?thesis by (metis prod.collapse)
qed

lemma lower_entries_subset:
  assumes "sp_wf A" "lower_agree A B" "e \<in> set (filter lower (entries A))"
  shows "e \<in> set (filter lower (entries B))"
proof -
  from assms(3) have e: "e \<in> set (entries A)" "fst (snd e) < fst e" by (simp_all add: lower_def)
  note st = sp_at_stored[OF assms(1) e(1)]
  have "sp_at B (fst e) (fst (snd e)) = sp_at A (fst e) (fst (snd e))"
    using assms(2) st(3) e(2) by (simp add: lower_agree_def list_all_iff)
  then have "sp_at B (fst e) (fst (snd e)) = snd (snd e)" using st(1) by simp
  moreover from this st(2) have "(fst e, fst (snd e), sp_at B (fst e) (fst (snd e))) \<in> set (entries B)"
    by (intro sp_at_nonzero) simp
  ultimately have "e \<in> set (entries B)" by simp
  then show ?thesis using e(2) by (simp add: lower_def)
qed

lemma lower_agree_sym: "lower_agree A B \<Longrightarrow> lower_agree B A"
  by (auto simp: lower_agree_def list_all_iff)

lemma lower_entries_eq:
  assumes "sp_wf A" "sp_wf B" "lower_agree A B"
  shows "filter lower (entries A) = filter lower (entries B)"
proof (rule sorted_col_major_unique)
  show "sorted_wrt col_major (filter lower (entries A))"
    using assms(1) by (simp add: sp_wf_def sorted_wrt_filter)
  show "sorted_wrt col_major (filter lower (entries B))"
    using assms(2) by (simp add: sp_wf_def sorted_wrt_filter)
  show "set (filter lower (entries A)) = set (filter lower (entries B))"
    using lower_entries_subset[OF assms(1) assms(3)]
      lower_entries_subset[OF assms(2) lower_agree_sym[OF assms(3)]] by blast
qed

lemma vLL_cov_lower:
  "vLL_complete_sparse_bernoulli_undirected_covariates Y R M Z Gamma pi_v =
     bindE (mat_vec Z (map ln pi_v)) (\<lambda>p.
     bindE (foldE (\<lambda>loglik e.
              if lower e
              then accumulate (n_cols Z) (edge_term Z Gamma M (fst e) (fst (snd e))) loglik
              else Inr loglik) (sum_list p) (filter lower (entries Y))) (\<lambda>loglik1.
     foldE (\<lambda>loglik e.
              if lower e
              then accumulate (n_cols Z) (mask_term Z Gamma M (fst e) (fst (snd e))) loglik
              else Inr loglik) loglik1 (filter lower (entries R))))"
  unfolding vLL_complete_sparse_bernoulli_undirected_covariates_def
  by (subst foldE_filter[where P = lower], simp, subst (2) foldE_filter[where P = lower], simp, rule refl)

lemma m_step_dyad_agree:
  assumes "lower_agree Y Y'"
  shows "m_step_dyad gamma beta Y X Z s e = m_step_dyad gamma beta Y' X Z s e"
proof (cases "lower e")
  case False then show ?thesis by (simp add: m_step_dyad_def)
next
  case True
  have "sp_elem Y (fst e) (fst (snd e)) = sp_elem Y' (fst e) (fst (snd e))"
    using assms True by (auto simp: sp_elem_def lower_agree_def lower_def list_all_iff)
  then show ?thesis by (simp add: m_step_dyad_def)
qed

lemma M_step_cov_lower:
  assumes "lower_agree Y Y'" "filter lower (entries R) = filter lower (entries R')"
  shows "M_step_sparse_bernoulli_undirected_covariates param Y R X Z =
         M_step_sparse_bernoulli_undirected_covariates param Y' R' X Z"
proof -
  have "foldE (m_step_dyad gamma beta Y X Z) s (entries R) =
        foldE (m_step_dyad gamma beta Y' X Z) s (entries R')" for gamma beta s
  proof -
    have "foldE (m_step_dyad gamma beta Y X Z) s (entries R) =
          foldE (m_step_dyad gamma beta Y X Z) s (filter lower (entries R))"
      by (rule foldE_filter) (simp add: m_step_dyad_def)
    also have "\<dots> = foldE (m_step_dyad gamma beta Y' X Z) s (filter lower (entries R'))"
      unfolding assms(2) by (rule foldE_cong) (rule m_step_dyad_agree[OF assms(1)])
    also have "\<dots> = foldE (m_step_dyad gamma beta Y' X Z) s (entries R')"
      by (rule foldE_filter[symmetric]) (simp add: m_step_dyad_def)
    finally show ?thesis .
  qed
  then show ?thesis
    by (simp add: M_step_sparse_bernoulli_undirected_covariates_def Let_def)
qed

text \<open>
  C10. The undirected likelihood with covariates and the covariate M-step return the same
  on \<open>(Y, R)\<close> and \<open>(Y', R')\<close> whenever the matrices have the same sizes and agree at every
  place with row index greater than column index, whatever they hold on and above the
  diagonal (the other arguments being the same).
\<close>

theorem lower_triangle_only:
  assumes "sp_wf Y" "sp_wf Y'" "sp_wf R" "sp_wf R'" "lower_agree Y Y'" "lower_agree R R'"
  shows "vLL_complete_sparse_bernoulli_undirected_covariates Y R M Z Gamma pi_v =
         vLL_complete_sparse_bernoulli_undirected_covariates Y' R' M Z Gamma pi_v \<and>
         M_step_sparse_bernoulli_undirected_covariates param Y R X Z =
         M_step_sparse_bernoulli_undirected_covariates param Y' R' X Z"
proof -
  have y: "filter lower (entries Y) = filter lower (entries Y')"
    using assms(1,2,5) by (rule lower_entries_eq)
  have r: "filter lower (entries R) = filter lower (entries R')"
    using assms(3,4,6) by (rule lower_entries_eq)
  show ?thesis
    by (simp add: vLL_cov_lower y r M_step_cov_lower[OF assms(5) r])
qed


lemma wf3: "sp_wf Y3" "sp_wf Y3b" "sp_wf R3" "sp_wf R3b"
  by (simp_all add: sp_wf_def col_major_def Y3_def Y3b_def R3_def R3b_def)

lemma agree3: "lower_agree Y3 Y3b" "lower_agree R3 R3b"
  by (simp_all add: lower_agree_def sp_at_def Y3_def Y3b_def R3_def R3b_def eval_nat_numeral)

theorem lower_triangle_only_witness:
  "vLL_complete_sparse_bernoulli_undirected_covariates Y3 R3 M3 Z3 theta2 pi2 =
   vLL_complete_sparse_bernoulli_undirected_covariates Y3b R3b M3 Z3 theta2 pi2 \<and>
   M_step_sparse_bernoulli_undirected_covariates param5 Y3 R3 X3 Z3 =
   M_step_sparse_bernoulli_undirected_covariates param5 Y3b R3b X3 Z3"
  using lower_triangle_only[OF wf3 agree3] .

section \<open>The covariate M-step computes the specified objective and gradient\<close>

lemma mem_mk_mat_concat:
  "mem (mk_mat r c f) = concat (map (\<lambda>j. map (\<lambda>i. f i j) [0..<r]) [0..<c])"
proof -
  have "map (\<lambda>k. f (k mod r) (k div r)) [0..<r * c] = concat (map (\<lambda>j. map (\<lambda>i. f i j) [0..<r]) [0..<c])"
  proof (induction c)
    case 0 then show ?case by simp
  next
    case (Suc c)
    have "[0..<r * Suc c] = [0..<r * c] @ map (\<lambda>i. i + r * c) [0..<r]"
    proof -
      have "[0..<r * c + r] = [0..<r * c] @ [r * c..<r * c + r]"
        by (rule upt_add_eq_append) simp
      moreover have "map (\<lambda>i. i + r * c) [0..<r] = [r * c..<r + r * c]"
        by (rule map_add_upt)
      ultimately show ?thesis by (simp add: add.commute[of r "r * c"])
    qed
    moreover have "map (\<lambda>k. f (k mod r) (k div r)) (map (\<lambda>i. i + r * c) [0..<r]) = map (\<lambda>i. f i c) [0..<r]"
    proof -
      have "f ((i + r * c) mod r) ((i + r * c) div r) = f i c" if "i < r" for i
        using that by simp
      then show ?thesis by simp
    qed
    ultimately show ?case using Suc by simp
  qed
  then show ?thesis by (simp add: mk_mat_def)
qed

lemma accu_mk_mat_swap: "accu (mk_mat Q Q f) = sum_upto Q (\<lambda>q. sum_upto Q (\<lambda>l. f q l))"
proof -
  have "accu (mk_mat Q Q f) = (\<Sum>l<Q. \<Sum>q<Q. f q l)" by (simp add: accu_def sum_upto_sum)
  also have "\<dots> = (\<Sum>q<Q. \<Sum>l<Q. f q l)" by (rule sum.swap)
  finally show ?thesis by (simp add: sum_upto_sum)
qed

lemma gamma_at:
  assumes "q < Q" "l < Q" "Q * Q \<le> length param"
  shows "m_at \<lparr>n_rows = Q, n_cols = Q, mem = take (Q * Q) param\<rparr> q l = spec_Gamma param Q q l"
proof -
  have "q + l * Q < Q + l * Q" using assms by simp
  also have "\<dots> = Suc l * Q" by simp
  also have "\<dots> \<le> Q * Q" using assms by (intro mult_le_mono1) simp
  finally have "q + l * Q < Q * Q" .
  then show ?thesis using assms by (simp add: m_at_def spec_Gamma_def)
qed

lemma outer_rows:
  "outer (m_row Z i) (m_row Z j) = mk_mat (n_cols Z) (n_cols Z) (\<lambda>q l. m_at Z i q * m_at Z j l)"
  unfolding outer_def m_row_def by (simp, rule mk_mat_cong, simp)

lemma schur_outer:
  assumes "Q * Q \<le> length param"
  shows "schur (mk_mat Q Q f)
           (m_map g \<lparr>n_rows = Q, n_cols = Q, mem = take (Q * Q) param\<rparr>)
         = Inr (mk_mat Q Q (\<lambda>q l. f q l * g (spec_Gamma param Q q l)))"
proof -
  have "mk_mat Q Q (\<lambda>i j. m_at (mk_mat Q Q f) i j *
            m_at (m_map g \<lparr>n_rows = Q, n_cols = Q, mem = take (Q * Q) param\<rparr>) i j)
        = mk_mat Q Q (\<lambda>q l. f q l * g (spec_Gamma param Q q l))"
    by (rule mk_mat_cong) (simp add: gamma_at[OF _ _ assms])
  then show ?thesis by (simp add: schur_def)
qed

lemma dot_beta:
  assumes "Q * Q + c_n_slices X \<le> length param"
  shows "dot (take (c_n_slices X) (drop (Q * Q) param)) (map (\<lambda>k. c_at X i j k) [0..<c_n_slices X])
         = Inr (spec_mu param Q X i j)"
proof -
  have "length (take (c_n_slices X) (drop (Q * Q) param)) = c_n_slices X"
    using assms by simp
  then show ?thesis using assms by (simp add: dot_def spec_mu_def sum_upto_sum)
qed


lemma m_add_mk_mat:
  "m_add (mk_mat r c f) (mk_mat r c g) = Inr (mk_mat r c (\<lambda>i j. f i j + g i j))"
proof -
  have "mk_mat r c (\<lambda>i j. m_at (mk_mat r c f) i j + m_at (mk_mat r c g) i j)
        = mk_mat r c (\<lambda>i j. f i j + g i j)"
    by (rule mk_mat_cong) simp
  then show ?thesis by (simp add: m_add_def)
qed

lemma v_add_map:
  "v_add (map b [0..<K]) (map h [0..<K]) = Inr (map (\<lambda>k. b k + h k) [0..<K])"
  by (simp add: v_add_def)

lemma dyad_step:
  assumes len: "n_cols Z * n_cols Z + c_n_slices X \<le> length param"
    and rng: "fst e < n_rows Z" "fst (snd e) < n_rows Z"
    and X: "c_n_rows X = n_rows Z" "c_n_cols X = n_rows Z" and Y: "square_on Y Z"
    and low: "lower e"
  shows "m_step_dyad \<lparr>n_rows = n_cols Z, n_cols = n_cols Z, mem = take (n_cols Z * n_cols Z) param\<rparr>
            (take (c_n_slices X) (drop (n_cols Z * n_cols Z) param)) Y X Z
            \<lparr>loglik = ll, gr_gamma = mk_mat (n_cols Z) (n_cols Z) g,
             gr_beta = map b [0..<c_n_slices X]\<rparr> e
         = Inr \<lparr>loglik = ll + spec_dyad_loglik param Y X Z (fst e) (fst (snd e)),
                gr_gamma = mk_mat (n_cols Z) (n_cols Z)
                   (\<lambda>q l. g q l + spec_delta param Y X Z (fst e) (fst (snd e)) q l),
                gr_beta = map (\<lambda>k. b k + spec_sum_delta param Y X Z (fst e) (fst (snd e))
                                         * c_at X (fst e) (fst (snd e)) k) [0..<c_n_slices X]\<rparr>"
proof -
  have l2: "n_cols Z * n_cols Z \<le> length param" using len by simp
  have t: "tube X (fst e) (fst (snd e)) = Inr (map (\<lambda>k. c_at X (fst e) (fst (snd e)) k) [0..<c_n_slices X])"
    using rng X by (simp add: tube_def)
  have r: "row_of Z (fst e) = Inr (m_row Z (fst e))" "row_of Z (fst (snd e)) = Inr (m_row Z (fst (snd e)))"
    using rng by (simp_all add: row_of_def)
  have y: "sp_elem Y (fst e) (fst (snd e)) = Inr (sp_at Y (fst e) (fst (snd e)))"
    using rng Y by (simp add: sp_elem_def square_on_def)
  show ?thesis
    unfolding m_step_dyad_def
    by (simp add: low t dot_beta[OF len] r y outer_rows schur_outer[OF l2] accu_mk_mat_swap
          m_add_mk_mat v_add_map comp_def
          spec_dyad_loglik_def spec_delta_def spec_sum_delta_def sigmoid_def)
qed

lemma dyad_loop:
  assumes len: "n_cols Z * n_cols Z + c_n_slices X \<le> length param"
    and X: "c_n_rows X = n_rows Z" "c_n_cols X = n_rows Z" and Y: "square_on Y Z"
    and rng: "\<And>e. e \<in> set es \<Longrightarrow> fst e < n_rows Z \<and> fst (snd e) < n_rows Z"
  shows "foldE (m_step_dyad \<lparr>n_rows = n_cols Z, n_cols = n_cols Z, mem = take (n_cols Z * n_cols Z) param\<rparr>
            (take (c_n_slices X) (drop (n_cols Z * n_cols Z) param)) Y X Z)
            \<lparr>loglik = ll, gr_gamma = mk_mat (n_cols Z) (n_cols Z) g,
             gr_beta = map b [0..<c_n_slices X]\<rparr> es
         = Inr \<lparr>loglik = ll + sum_list (map (\<lambda>e. spec_dyad_loglik param Y X Z (fst e) (fst (snd e)))
                                   (filter lower es)),
                gr_gamma = mk_mat (n_cols Z) (n_cols Z)
                   (\<lambda>q l. g q l + sum_list (map (\<lambda>e. spec_delta param Y X Z (fst e) (fst (snd e)) q l)
                                    (filter lower es))),
                gr_beta = map (\<lambda>k. b k + sum_list (map (\<lambda>e. spec_sum_delta param Y X Z (fst e) (fst (snd e))
                                         * c_at X (fst e) (fst (snd e)) k) (filter lower es)))
                            [0..<c_n_slices X]\<rparr>"
  using rng
proof (induction es arbitrary: ll g b)
  case Nil
  then show ?case by simp
next
  case (Cons e es)
  have e: "fst e < n_rows Z" "fst (snd e) < n_rows Z" using Cons.prems by simp_all
  have rest: "\<And>x. x \<in> set es \<Longrightarrow> fst x < n_rows Z \<and> fst (snd x) < n_rows Z"
    using Cons.prems by simp
  show ?case
  proof (cases "lower e")
    case True
    show ?thesis
      by (simp add: True dyad_step[OF len e X Y True] Cons.IH[OF rest] add.assoc)
  next
    case False
    then have "m_step_dyad gamma beta Y X Z s e = Inr s" for gamma beta s
      by (simp add: m_step_dyad_def)
    then show ?thesis
      by (simp add: False Cons.IH[OF rest])
  qed
qed


lemma sorted_distinct_pos:
  "sorted_wrt col_major es \<Longrightarrow> distinct (map (\<lambda>e. (fst e, fst (snd e))) es)"
proof (induction es)
  case Nil then show ?case by simp
next
  case (Cons a es)
  have "(fst a, fst (snd a)) \<noteq> (fst x, fst (snd x))" if "x \<in> set es" for x
  proof -
    have "col_major a x" using Cons.prems that by simp
    then show ?thesis by (auto simp: col_major_def)
  qed
  then show ?case using Cons by auto
qed

lemma dyads_set:
  assumes "sp_wf R" "square_on R Z"
  shows "set (map (\<lambda>e. (fst e, fst (snd e))) (filter lower (entries R))) = set (spec_dyads R (n_rows Z))"
proof (intro set_eqI iffI)
  fix d
  assume "d \<in> set (map (\<lambda>e. (fst e, fst (snd e))) (filter lower (entries R)))"
  then obtain e where e: "e \<in> set (entries R)" "lower e" "d = (fst e, fst (snd e))" by auto
  note st = sp_at_stored[OF assms(1) e(1)]
  show "d \<in> set (spec_dyads R (n_rows Z))"
    using st e(2,3) assms(2) by (simp add: spec_dyads_def lower_def square_on_def)
next
  fix d
  assume "d \<in> set (spec_dyads R (n_rows Z))"
  then have d: "snd d < fst d" "sp_at R (fst d) (snd d) \<noteq> 0" by (simp_all add: spec_dyads_def)
  from sp_at_nonzero[OF d(2)] have "(fst d, snd d, sp_at R (fst d) (snd d)) \<in> set (entries R)" .
  moreover have "lower (fst d, snd d, sp_at R (fst d) (snd d))" using d(1) by (simp add: lower_def)
  ultimately have "(fst d, snd d) \<in> set (map (\<lambda>e. (fst e, fst (snd e))) (filter lower (entries R)))"
    by force
  then show "d \<in> set (map (\<lambda>e. (fst e, fst (snd e))) (filter lower (entries R)))" by simp
qed

lemma dyads_sum:
  fixes F :: "nat \<Rightarrow> nat \<Rightarrow> real"
  assumes "sp_wf R" "square_on R Z"
  shows "sum_list (map (\<lambda>e. F (fst e) (fst (snd e))) (filter lower (entries R)))
       = sum_list (map (\<lambda>d. F (fst d) (snd d)) (spec_dyads R (n_rows Z)))"
proof -
  let ?ps = "map (\<lambda>e. (fst e, fst (snd e))) (filter lower (entries R))"
  have d1: "distinct ?ps"
    using assms(1) by (intro sorted_distinct_pos) (simp add: sp_wf_def sorted_wrt_filter)
  have d2: "distinct (spec_dyads R (n_rows Z))"
    by (simp add: spec_dyads_def distinct_product)
  have "sum_list (map (\<lambda>e. F (fst e) (fst (snd e))) (filter lower (entries R)))
      = sum_list (map (\<lambda>d. F (fst d) (snd d)) ?ps)"
    by (simp add: comp_def)
  also have "\<dots> = sum (\<lambda>d. F (fst d) (snd d)) (set ?ps)"
    using d1 by (rule sum_list_distinct_conv_sum_set)
  also have "\<dots> = sum (\<lambda>d. F (fst d) (snd d)) (set (spec_dyads R (n_rows Z)))"
    by (simp only: dyads_set[OF assms])
  also have "\<dots> = sum_list (map (\<lambda>d. F (fst d) (snd d)) (spec_dyads R (n_rows Z)))"
    using d2 by (rule sum_list_distinct_conv_sum_set[symmetric])
  finally show ?thesis .
qed

text \<open>
  C2. On a parameter vector of length \<open>Q * Q + K\<close>, \<open>N \<times> N\<close> matrices \<open>Y\<close> and \<open>R\<close>, an
  \<open>N \<times> N \<times> K\<close> tensor \<open>X\<close> and an \<open>N \<times> Q\<close> matrix \<open>Z\<close>, the covariate M-step returns as objective
  the negated sum over the dyads of the Bernoulli-logit log-density, and as gradient the
  negated concatenation of the column-vectorised \<open>\<Gamma>\<close>-gradient and the \<open>\<beta>\<close>-gradient.
\<close>

theorem m_step_covariates_objective_gradient:
  assumes "m_step_cov_shapes param Y R X Z"
  shows "M_step_sparse_bernoulli_undirected_covariates param Y R X Z =
           Inr \<lparr>objective = spec_objective param Y R X Z, gradient = spec_gradient param Y R X Z\<rparr>"
proof -
  from assms have len: "length param = n_cols Z * n_cols Z + c_n_slices X"
    and Y: "square_on Y Z" and R: "square_on R Z" and wf: "sp_wf R"
    and X: "c_n_rows X = n_rows Z" "c_n_cols X = n_rows Z"
    by (simp_all add: m_step_cov_shapes_def)
  have le: "n_cols Z * n_cols Z + c_n_slices X \<le> length param" using len by simp
  have rng: "fst e < n_rows Z \<and> fst (snd e) < n_rows Z" if "e \<in> set (entries R)" for e
    using sp_at_stored(3,4)[OF wf that] R by (simp add: square_on_def)
  have z: "replicate (c_n_slices X) (0::real) = map (\<lambda>k. 0) [0..<c_n_slices X]"
    by (simp add: map_replicate_const)
  have nlt: "\<not> length param < n_cols Z * n_cols Z + c_n_slices X" using len by simp
  have s1: "sum_list (map (\<lambda>e. spec_dyad_loglik param Y X Z (fst e) (fst (snd e)))
                (filter lower (entries R))) = - spec_objective param Y R X Z"
    unfolding spec_objective_def
    using dyads_sum[OF wf R, of "\<lambda>i j. spec_dyad_loglik param Y X Z i j"] by simp
  have s2: "sum_list (map (\<lambda>e. spec_delta param Y X Z (fst e) (fst (snd e)) q l)
                (filter lower (entries R))) = spec_grad_gamma param Y R X Z q l" for q l
    unfolding spec_grad_gamma_def
    using dyads_sum[OF wf R, of "\<lambda>i j. spec_delta param Y X Z i j q l"] by simp
  have s3: "sum_list (map (\<lambda>e. spec_sum_delta param Y X Z (fst e) (fst (snd e))
                * c_at X (fst e) (fst (snd e)) k) (filter lower (entries R)))
            = spec_grad_beta param Y R X Z k" for k
    unfolding spec_grad_beta_def
    using dyads_sum[OF wf R, of "\<lambda>i j. spec_sum_delta param Y X Z i j * c_at X i j k"] by simp
  show ?thesis
    unfolding M_step_sparse_bernoulli_undirected_covariates_def Let_def z
    by (simp add: nlt dyad_loop[OF le X Y rng] s1 s2 s3 mem_mk_mat_concat comp_def
        spec_gradient_def)
qed


lemma m_step_two_params:
  "M_step_sparse_bernoulli_undirected_covariates [0, 0] Y2 Y2 X2 Z1 =
     Inr \<lparr>objective = ln 2, gradient = [- (1 / 2), - (1 / 2)]\<rparr>"
  by (simp add: M_step_sparse_bernoulli_undirected_covariates_def Let_def Y2_def X2_def
      m_step_dyad_def lower_def tube_def c_at_def dot_def row_of_def Z1_facts
      sp_elem_def sp_at_def outer_def schur_def m_map_def m_add_def v_add_def m_at_def)

theorem m_step_covariates_objective_gradient_witness:
  "M_step_sparse_bernoulli_undirected_covariates [0, 0] Y2 Y2 X2 Z1 =
     Inr \<lparr>objective = ln 2, gradient = [- (1 / 2), - (1 / 2)]\<rparr> \<and>
   spec_objective [0, 0] Y2 Y2 X2 Z1 = ln 2 \<and>
   spec_gradient [0, 0] Y2 Y2 X2 Z1 = [- (1 / 2), - (1 / 2)]"
proof -
  have "m_step_cov_shapes [0, 0] Y2 Y2 X2 Z1"
    by (simp add: m_step_cov_shapes_def square_on_def sp_wf_def col_major_def Z1_facts X2_def Y2_def)
  from m_step_covariates_objective_gradient[OF this] m_step_two_params
  show ?thesis by simp
qed

section \<open>Overflow\<close>

lemma max_double_ge: "2 ^ 1023 \<le> max_double"
  by (simp add: max_double_def)

lemma max_double_less: "max_double < 2 ^ 1024"
  by (simp add: max_double_def)

lemma max_double_ge_64: "2 ^ 64 \<le> max_double"
proof -
  have "(2::real) ^ 64 \<le> 2 ^ 1023" by (rule power_increasing) simp_all
  with max_double_ge show ?thesis by linarith
qed

lemma max_double_ge_1000: "1000 \<le> max_double"
proof -
  have "(1000::real) \<le> 2 ^ 64" by simp
  with max_double_ge_64 show ?thesis by linarith
qed

lemma ovf_Fin: "- max_double \<le> r \<Longrightarrow> r \<le> max_double \<Longrightarrow> ovf r = Fin r"
  by (simp add: ovf_def)

lemma ovf_small: "\<bar>r\<bar> \<le> 1000 \<Longrightarrow> ovf r = Fin r"
  using max_double_ge_1000 by (intro ovf_Fin) linarith+

lemma exp_800_overflows: "max_double < exp 800"
proof -
  have e: "(5 / 2 :: real) \<le> exp 1"
    using exp_lower_Taylor_quadratic[of "1::real"] by simp
  have "(2::real) ^ 33 \<le> (5 / 2) ^ 25" by (simp add: power_divide)
  then have "((2::real) ^ 33) ^ 32 \<le> ((5 / 2) ^ 25) ^ 32" by (rule power_mono) simp
  then have "(2::real) ^ 1056 \<le> (5 / 2) ^ 800" by (simp only: power_mult[symmetric]) simp
  also have "\<dots> \<le> exp 1 ^ 800" using e by (rule power_mono) simp
  also have "\<dots> = exp 800" using exp_of_nat_mult[of 800 "1::real"] by simp
  finally have "(2::real) ^ 1056 \<le> exp 800" .
  moreover have "(2::real) ^ 1024 \<le> 2 ^ 1056" by (rule power_increasing) simp_all
  ultimately show ?thesis using max_double_less by linarith
qed

section \<open>The softmax of a row of finite scores\<close>

lemma list_all_upt: "list_all P [0..<n] \<longleftrightarrow> (\<forall>i<n. P i)"
  by (auto simp: list_all_iff)

lemma sum_list_divide: "sum_list (map (\<lambda>v. f v / c) x) = sum_list (map f x) / c" for c :: real
  by (induction x) (simp_all add: add_divide_distrib)

lemma mapE_Inr:
  "mapE f xs = Inr ys \<Longrightarrow> length ys = length xs \<and> (\<forall>i<length xs. f (xs ! i) = Inr (ys ! i))"
proof (induction xs arbitrary: ys)
  case Nil then show ?case by simp
next
  case (Cons x xs)
  then obtain y ys' where "f x = Inr y" "mapE f xs = Inr ys'" "ys = y # ys'"
    by (auto split: sum.splits)
  with Cons.IH[of ys'] show ?case by (auto simp: nth_Cons split: nat.splits)
qed

lemma mapE_returns: "(\<And>x. x \<in> set xs \<Longrightarrow> \<exists>y. f x = Inr y) \<Longrightarrow> \<exists>ys. mapE f xs = Inr ys"
proof (induction xs)
  case Nil then show ?case by simp
next
  case (Cons x xs)
  then obtain y ys where "f x = Inr y" "mapE f xs = Inr ys" by (meson list.set_intros)
  then show ?case by simp
qed

lemma sum_upto_nth: "sum_upto (length y) (\<lambda>j. y ! j) = sum_list y"
  by (simp add: sum_upto_def map_nth)

lemma elem_le_sum_list:
  fixes xs :: "real list"
  assumes "x \<in> set xs" "\<forall>y\<in>set xs. 0 \<le> y"
  shows "x \<le> sum_list xs"
  using assms
proof (induction xs)
  case Nil then show ?case by simp
next
  case (Cons a xs)
  have nn: "0 \<le> sum_list xs" using Cons.prems(2) by (intro sum_list_nonneg) simp
  show ?case
  proof (cases "x = a")
    case True then show ?thesis using nn by simp
  next
    case False
    then have "x \<le> sum_list xs" using Cons by simp
    moreover have "0 \<le> a" using Cons.prems(2) by simp
    ultimately show ?thesis by simp
  qed
qed

text \<open>The maximum of a row of finite doubles.\<close>

lemma fold_gt_Fin:
  "fold (\<lambda>v m. if dgt v m then v else m) (map Fin rs) (Fin a) = Fin (fold max rs a)"
proof (induction rs arbitrary: a)
  case Nil then show ?case by simp
next
  case (Cons r rs)
  have "(if a < r then r else a) = max r a" by (simp add: max_def)
  then show ?case using Cons.IH by simp
qed

lemma vmax_Fin:
  assumes "rs \<noteq> []"
  shows "vmax (map Fin rs) = Inr (Fin (Max (set rs)))"
proof -
  from assms obtain r rs' where rs: "rs = r # rs'" by (cases rs) auto
  have "fold max rs' r = Max (set (r # rs'))" by (simp only: Max.set_eq_fold)
  then show ?thesis by (simp add: vmax_def rs fold_gt_Fin)
qed

lemma sexp_range: "0 \<le> sexp m r" "r \<le> m \<Longrightarrow> sexp m r \<le> 1" "sexp m m = 1"
  using max_double_ge_1000 by (simp_all add: sexp_def)

lemma dexp_dsub_Fin:
  assumes "r \<le> m"
  shows "dexp (dsub (Fin r) (Fin m)) = Fin (sexp m r)"
proof (cases "r - m < - max_double")
  case True
  then show ?thesis using max_double_ge_1000 by (simp add: dsub_def ovf_def sexp_def)
next
  case False
  have "exp (r - m) \<le> 1" using assms by simp
  moreover have "0 < exp (r - m)" by simp
  ultimately have "ovf (exp (r - m)) = Fin (exp (r - m))"
    using max_double_ge_1000 by (intro ovf_Fin) linarith+
  moreover have "ovf (r - m) = Fin (r - m)"
    using False assms max_double_ge_1000 by (intro ovf_Fin) linarith+
  ultimately show ?thesis using False by (simp add: dsub_def sexp_def)
qed

lemma foldl_dadd_Fin:
  assumes "0 \<le> a" "\<And>e. e \<in> set es \<Longrightarrow> 0 \<le> e \<and> e \<le> 1" "a + real (length es) \<le> max_double"
  shows "foldl dadd (Fin a) (map Fin es) = Fin (a + sum_list es)"
  using assms
proof (induction es arbitrary: a)
  case Nil then show ?case by simp
next
  case (Cons e es)
  have e: "0 \<le> e" "e \<le> 1" using Cons.prems(2) by simp_all
  have "real (length (e # es)) = 1 + real (length es)" by simp
  then have "a + e \<le> max_double" "- max_double \<le> a + e"
    using e Cons.prems(1,3) by linarith+
  then have "ovf (a + e) = Fin (a + e)" by (intro ovf_Fin)
  moreover have "foldl dadd (Fin (a + e)) (map Fin es) = Fin (a + e + sum_list es)"
  proof (rule Cons.IH)
    show "0 \<le> a + e" using e Cons.prems(1) by simp
    show "0 \<le> x \<and> x \<le> 1" if "x \<in> set es" for x using that Cons.prems(2) by simp
    show "a + e + real (length es) \<le> max_double" using e Cons.prems(3) by simp
  qed
  ultimately show ?case by (simp add: add.assoc)
qed

lemma softmax_row_Fin:
  assumes ne: "rs \<noteq> []" and len: "real (length rs) \<le> max_double"
  shows "softmax_row (map Fin rs) =
           Inr (map (\<lambda>r. Fin (sexp (Max (set rs)) r / sum_list (map (sexp (Max (set rs))) rs))) rs)"
    and "1 \<le> sum_list (map (sexp (Max (set rs))) rs)"
proof -
  let ?m = "Max (set rs)"
  let ?s = "sum_list (map (sexp ?m) rs)"
  have le: "r \<le> ?m" if "r \<in> set rs" for r using that by simp
  have mem: "?m \<in> set rs" using ne by simp
  have ex: "map (\<lambda>u. dexp (dsub u (Fin ?m))) (map Fin rs) = map Fin (map (sexp ?m) rs)"
    using le by (simp add: dexp_dsub_Fin)
  have sum: "dsum_list (map Fin (map (sexp ?m) rs)) = Fin ?s"
  proof -
    have "foldl dadd (Fin 0) (map Fin (map (sexp ?m) rs)) = Fin (0 + sum_list (map (sexp ?m) rs))"
    proof (rule foldl_dadd_Fin)
      show "(0::real) \<le> 0" by simp
      show "0 \<le> e \<and> e \<le> 1" if "e \<in> set (map (sexp ?m) rs)" for e
        using that le by (auto simp: sexp_range)
      show "0 + real (length (map (sexp ?m) rs)) \<le> max_double" using len by simp
    qed
    then show ?thesis by (simp add: dsum_list_def)
  qed
  have "sexp ?m ?m \<in> set (map (sexp ?m) rs)" using mem by simp
  moreover have "\<forall>x\<in>set (map (sexp ?m) rs). 0 \<le> x" by (auto simp: sexp_range)
  ultimately have "sexp ?m ?m \<le> ?s" by (rule elem_le_sum_list)
  then show s1: "1 \<le> ?s" by (simp add: sexp_range)
  have q: "ddivide (Fin (sexp ?m r)) (Fin ?s) = Fin (sexp ?m r / ?s)" if "r \<in> set rs" for r
  proof -
    have "0 \<le> sexp ?m r / ?s" using s1 by (simp add: sexp_range)
    moreover have "sexp ?m r / ?s \<le> 1"
      using s1 sexp_range(2)[OF le[OF that]] by (simp add: divide_le_eq)
    ultimately have "ovf (sexp ?m r / ?s) = Fin (sexp ?m r / ?s)"
      using max_double_ge_1000 by (intro ovf_Fin) linarith+
    then show ?thesis using s1 by simp
  qed
  have sumd: "dsum_list (map (\<lambda>u. dexp (dsub u (Fin ?m))) (map Fin rs)) = Fin ?s"
    by (simp only: ex sum)
  have el: "ddivide (dexp (dsub (Fin r) (Fin ?m))) (Fin ?s) = Fin (sexp ?m r / ?s)"
    if "r \<in> set rs" for r
    by (simp only: dexp_dsub_Fin[OF le[OF that]] q[OF that])
  have "map (\<lambda>v. ddivide (dexp (dsub v (Fin ?m))) (Fin ?s)) (map Fin rs)
        = map (\<lambda>r. Fin (sexp ?m r / ?s)) rs"
    unfolding map_map comp_def by (rule map_cong[OF refl]) (rule el)
  then show "softmax_row (map Fin rs) = Inr (map (\<lambda>r. Fin (sexp ?m r / ?s)) rs)"
    by (simp only: softmax_row_def vmax_Fin[OF ne] bindE_Inr sumd)
qed

lemma is_fin_val: "is_fin x \<Longrightarrow> Fin (val x) = x"
  by (cases x) (simp_all add: is_fin_def val_def)

lemma val_Fin [simp]: "val (Fin a) = a" "is_fin (Fin a)"
  by (simp_all add: val_def is_fin_def)

lemma softmax_row_finite:
  assumes fin: "\<forall>x\<in>set xs. is_fin x" and ne: "xs \<noteq> []" and len: "real (length xs) \<le> max_double"
  shows "\<exists>ys. softmax_row xs = Inr ys \<and> length ys = length xs \<and>
              (\<forall>j<length ys. is_fin (ys ! j) \<and> 0 \<le> val (ys ! j)) \<and> sum_list (map val ys) = 1"
proof -
  let ?rs = "map val xs"
  let ?m = "Max (set ?rs)"
  let ?s = "sum_list (map (sexp ?m) ?rs)"
  let ?ys = "map (\<lambda>r. Fin (sexp ?m r / ?s)) ?rs"
  have xs: "xs = map Fin ?rs" using fin by (simp add: map_idI is_fin_val)
  have ne': "?rs \<noteq> []" using ne by simp
  have len': "real (length ?rs) \<le> max_double" using len by simp
  note sm = softmax_row_Fin[OF ne' len']
  have 1: "softmax_row xs = Inr ?ys" using sm(1) xs by simp
  have 2: "\<forall>j<length ?ys. is_fin (?ys ! j) \<and> 0 \<le> val (?ys ! j)"
    using sm(2) by (simp add: sexp_range)
  have "sum_list (map val ?ys) = sum_list (map (\<lambda>r. sexp ?m r / ?s) ?rs)"
    by (simp add: comp_def)
  also have "\<dots> = ?s / ?s" by (simp only: sum_list_divide)
  also have "\<dots> = 1" using sm(2) by simp
  finally have 3: "sum_list (map val ?ys) = 1" .
  from 1 2 3 show ?thesis by (intro exI[of _ ?ys]) simp
qed

lemma softmax_stage:
  assumes fin: "all_finite S" and cols: "0 < n_cols S" "n_cols S < 2 ^ 64"
  shows "\<exists>T. each_row_apply softmax_row S = Inr T \<and> n_rows T = n_rows S \<and> n_cols T = n_cols S \<and>
             row_stochastic T"
proof -
  have len: "real (n_cols S) \<le> max_double"
  proof -
    have "real (n_cols S) \<le> real ((2::nat) ^ 64)" using cols(2) by (intro of_nat_mono) simp
    then show ?thesis using max_double_ge_64 by simp
  qed
  have row: "\<exists>ys. softmax_row (m_row S i) = Inr ys \<and> length ys = n_cols S \<and>
              (\<forall>j<length ys. is_fin (ys ! j) \<and> 0 \<le> val (ys ! j)) \<and> sum_list (map val ys) = 1"
    if "i < n_rows S" for i
  proof -
    have "\<forall>x\<in>set (m_row S i). is_fin x"
      using fin that by (auto simp: all_finite_def list_all_upt m_row_def)
    moreover have "m_row S i \<noteq> []" "length (m_row S i) = n_cols S"
      using cols(1) by (auto simp: m_row_def)
    ultimately show ?thesis using softmax_row_finite[of "m_row S i"] len by auto
  qed
  have "\<exists>y. softmax_row x = Inr y" if "x \<in> set (map (m_row S) [0..<n_rows S])" for x
  proof -
    from that obtain i where "i < n_rows S" "x = m_row S i" by auto
    with row[of i] show ?thesis by blast
  qed
  then obtain rows where rows: "mapE softmax_row (map (m_row S) [0..<n_rows S]) = Inr rows"
    using mapE_returns by blast
  let ?T = "mk_mat (n_rows S) (n_cols S) (\<lambda>i j. rows ! i ! j)"
  have T: "each_row_apply softmax_row S = Inr ?T" by (simp add: each_row_apply_def rows)
  have ri: "softmax_row (m_row S i) = Inr (rows ! i)" if "i < n_rows S" for i
    using mapE_Inr[OF rows] that by simp
  have "list_all (\<lambda>j. is_fin (m_at ?T i j) \<and> 0 \<le> val (m_at ?T i j)) [0..<n_cols ?T] \<and>
        sum_upto (n_cols ?T) (\<lambda>j. val (m_at ?T i j)) = 1" if i: "i < n_rows S" for i
  proof -
    from row[OF i] ri[OF i] have l: "length (rows ! i) = n_cols S"
      and p: "\<forall>j<n_cols S. is_fin (rows ! i ! j) \<and> 0 \<le> val (rows ! i ! j)"
      and s: "sum_list (map val (rows ! i)) = 1" by auto
    have "sum_upto (n_cols S) (\<lambda>j. val (m_at ?T i j))
          = sum_upto (length (map val (rows ! i))) (\<lambda>j. map val (rows ! i) ! j)"
      using i by (simp add: l sum_upto_sum)
    also have "\<dots> = 1" using s by (simp only: sum_upto_nth)
    finally show ?thesis using p i by (simp add: list_all_upt)
  qed
  then have "row_stochastic ?T" by (simp add: row_stochastic_def list_all_upt)
  with T show ?thesis by (intro exI[of _ ?T]) simp
qed

section \<open>The expectation step on two nodes\<close>

lemma ln2_bounds: "0 < ln (2::real)" "ln (2::real) < 1"
  using ln_2_less_1 by simp_all

lemma ln_half [simp]: "ln (1 / 2 :: real) = - ln 2"
  by (simp add: ln_div)

lemma ovf_vals [simp]:
  "ovf 0 = Fin 0" "ovf 1 = Fin 1" "ovf (1 / 2) = Fin (1 / 2)" "ovf 2 = Fin 2" "ovf 800 = Fin 800"
  "ovf (- ln 2) = Fin (- ln 2)" "ovf (ln 2) = Fin (ln 2)"
  "ovf (- (2 * ln 2)) = Fin (- (2 * ln 2))" "ovf (- (3 * ln 2)) = Fin (- (3 * ln 2))"
  using ln2_bounds by (simp_all add: ovf_small)

lemma exp_overflow [simp]: "ovf (exp 800) = PInf"
  using exp_800_overflows by (simp add: ovf_def)

lemma Z1_at: "m_at Z1 0 0 = 1" "m_at Z1 (Suc 0) 0 = 1"
  by (simp_all add: Z1_def)

lemma Y2_at: "sp_at Y2 0 0 = 0" "sp_at Y2 0 (Suc 0) = 1" "sp_at Y2 (Suc 0) 0 = 1" "sp_at Y2 (Suc 0) (Suc 0) = 0"
  by (simp_all add: sp_at_def Y2_def)

lemma mk_mat_2x1: "mk_mat 2 (Suc 0) f = \<lparr>n_rows = 2, n_cols = Suc 0, mem = [f 0 0, f (Suc 0) 0]\<rparr>"
  by (simp add: mk_mat_def eval_nat_numeral)

lemma upt_2: "[0..<2] = [0, Suc 0]"
  by (simp add: eval_nat_numeral)

lemma mk_mat_2x2:
  "mk_mat 2 2 f = \<lparr>n_rows = 2, n_cols = 2, mem = [f 0 0, f (Suc 0) 0, f 0 (Suc 0), f (Suc 0) (Suc 0)]\<rparr>"
proof -
  have "[0..<2 * 2] = [0, 1, 2, 3::nat]" by (simp add: eval_nat_numeral)
  then show ?thesis by (simp add: mk_mat_def)
qed

lemma at_2x1:
  "m_at \<lparr>n_rows = 2, n_cols = Suc 0, mem = [a, b]\<rparr> 0 0 = a"
  "m_at \<lparr>n_rows = 2, n_cols = Suc 0, mem = [a, b]\<rparr> (Suc 0) 0 = b"
  by (simp_all add: m_at_def)

lemma at_2x2:
  "m_at \<lparr>n_rows = 2, n_cols = 2, mem = [a, b, c, d]\<rparr> 0 0 = a"
  "m_at \<lparr>n_rows = 2, n_cols = 2, mem = [a, b, c, d]\<rparr> (Suc 0) 0 = b"
  "m_at \<lparr>n_rows = 2, n_cols = 2, mem = [a, b, c, d]\<rparr> 0 (Suc 0) = c"
  "m_at \<lparr>n_rows = 2, n_cols = 2, mem = [a, b, c, d]\<rparr> (Suc 0) (Suc 0) = d"
  by (simp_all add: m_at_def eval_nat_numeral)

lemma dsum_1 [simp]: "dsum (Suc 0) f = dadd (Fin 0) (f 0)"
  by simp

lemma dsum_2: "dsum 2 f = dadd (dadd (Fin 0) (f 0)) (f (Suc 0))"
  by (simp add: eval_nat_numeral)

lemma M2_at: "n_rows M2 = 2" "n_cols M2 = 2" "m_at M2 0 (Suc 0) = 0" "m_at M2 (Suc 0) 0 = 0"
  by (simp_all add: M2_def)

lemma Z1_dims: "n_rows Z1 = 2" "n_cols Z1 = Suc 0"
  by (simp_all add: Z1_def)

lemma Y2_dims: "sp_n_rows Y2 = 2" "sp_n_cols Y2 = 2" "entries Y2 = [(Suc 0, 0, 1), (0, Suc 0, 1)]"
  by (simp_all add: Y2_def)

lemma sp_mul_Y2_Z1: "sp_mul Y2 Z1 = Inr \<lparr>n_rows = 2, n_cols = Suc 0, mem = [Fin 1, Fin 1]\<rparr>"
  by (simp add: sp_mul_def Z1_dims Y2_dims(1,2) mk_mat_2x1 dsum_2 Z1_at Y2_at)

lemma spt_mul_Y2_Z1: "spt_mul Y2 Z1 = Inr \<lparr>n_rows = 2, n_cols = Suc 0, mem = [Fin 1, Fin 1]\<rparr>"
  by (simp add: spt_mul_def Z1_dims Y2_dims(1,2) mk_mat_2x1 dsum_2 Z1_at Y2_at)

lemma G800: "n_rows (m_map Fin Gamma800) = Suc 0" "n_cols (m_map Fin Gamma800) = Suc 0"
  "m_at (m_map Fin Gamma800) 0 0 = Fin 800"
  "n_rows Gamma800 = Suc 0" "n_cols Gamma800 = Suc 0" "m_at Gamma800 0 0 = 800"
  by (simp_all add: Gamma800_def)

lemma penalty_800:
  "penalty Z1 Gamma800 M2 (Suc 0) 0 0 0 = Inr PInf"
  "penalty Z1 Gamma800 M2 0 (Suc 0) 0 0 = Inr PInf"
  by (simp_all add: penalty_def m_elem_def Z1_dims Z1_at G800 M2_at inf_of_sign_def)

lemma log_tau_cov_800:
  "log_tau_undirected_covariates Y2 Y2 M2 Z1 Gamma800 pi1 =
     Inr \<lparr>n_rows = 2, n_cols = Suc 0, mem = [NInf, NInf]\<rparr>"
  by (simp add: log_tau_undirected_covariates_def sp_mul_Y2_Z1 d_mul_def G800 mk_mat_2x1 at_2x1
        Y2_dims Z1_dims penalty_800 m_sub_at_def dsub_def each_row_add_def log_v_def pi1_def)

lemma e_step_cov_800:
  "E_step_sparse_bernoulli_undirected_covariates Y2 Y2 M2 Z1 Gamma800 pi1 =
     Inr \<lparr>n_rows = 2, n_cols = Suc 0, mem = [QNaN, QNaN]\<rparr>"
  by (simp add: E_step_sparse_bernoulli_undirected_covariates_def log_tau_cov_800
       each_row_apply_def m_row_def at_2x1 upt_2
       softmax_row_def vmax_def dsum_list_def dsub_def mk_mat_2x1)

lemma not_stochastic_nan: "\<not> row_stochastic \<lparr>n_rows = 2, n_cols = Suc 0, mem = [QNaN, QNaN]\<rparr>"
  by (simp add: row_stochastic_def is_fin_def at_2x1 upt_2)

lemma mk_mat_1x1r: "mk_mat (Suc 0) (Suc 0) f = \<lparr>n_rows = Suc 0, n_cols = Suc 0, mem = [f 0 0]\<rparr>"
  by (simp add: mk_mat_def)

lemma mk_mat_1x2: "mk_mat (Suc 0) 2 f = \<lparr>n_rows = Suc 0, n_cols = 2, mem = [f 0 0, f 0 (Suc 0)]\<rparr>"
  by (simp add: mk_mat_def eval_nat_numeral)

lemma at_1x1: "m_at \<lparr>n_rows = Suc 0, n_cols = Suc 0, mem = [a]\<rparr> 0 0 = a"
  by (simp add: m_at_def)

lemma at_1x2:
  "m_at \<lparr>n_rows = Suc 0, n_cols = 2, mem = [a, b]\<rparr> 0 0 = a"
  "m_at \<lparr>n_rows = Suc 0, n_cols = 2, mem = [a, b]\<rparr> 0 (Suc 0) = b"
  by (simp_all add: m_at_def)

lemma logit_half: "dlog (ddivide (Fin (1 / 2)) (dsub (Fin 1) (Fin (1 / 2)))) = Fin 0"
  "dlog (dsub (Fin 1) (Fin (1 / 2))) = Fin (- ln 2)" "dlog (Fin (1 / 2)) = Fin (- ln 2)"
  by (simp_all add: dsub_def)

lemma theta11_d:
  "logit_d theta11 = \<lparr>n_rows = Suc 0, n_cols = Suc 0, mem = [Fin 0]\<rparr>"
  "log1m_d theta11 = \<lparr>n_rows = Suc 0, n_cols = Suc 0, mem = [Fin (- ln 2)]\<rparr>"
  by (simp_all add: logit_d_def log1m_d_def theta11_def m_map_def mk_mat_1x1r logit_half)

lemma theta12_d:
  "logit_d theta12 = \<lparr>n_rows = Suc 0, n_cols = 2, mem = [Fin 0, Fin 0]\<rparr>"
  "log1m_d theta12 = \<lparr>n_rows = Suc 0, n_cols = 2, mem = [Fin (- ln 2), Fin (- ln 2)]\<rparr>"
  by (simp_all add: logit_d_def log1m_d_def theta12_def m_map_def mk_mat_1x2 logit_half)

lemma trans_1x1: "m_trans \<lparr>n_rows = Suc 0, n_cols = Suc 0, mem = [a]\<rparr> = \<lparr>n_rows = Suc 0, n_cols = Suc 0, mem = [a]\<rparr>"
  by (simp add: m_trans_def mk_mat_1x1r at_1x1)

lemma log_tau_und_small:
  "log_tau_undirected_nocovariate Y2 Y2 Z1 theta11 pi1 0 =
     Inr \<lparr>n_rows = 2, n_cols = Suc 0, mem = [Fin (- (2 * ln 2)), Fin (- (2 * ln 2))]\<rparr>"
  by (simp add: log_tau_undirected_nocovariate_def sp_mul_Y2_Z1 theta11_d d_mul_def d_add_def
        mk_mat_2x1 at_2x1 at_1x1 m_map_def each_row_add_def log_v_def pi1_def)

lemma log_tau_dir_small:
  "log_tau_directed_nocovariate Y2 Y2 Z1 theta11 pi1 0 =
     Inr \<lparr>n_rows = 2, n_cols = Suc 0, mem = [Fin (- (3 * ln 2)), Fin (- (3 * ln 2))]\<rparr>"
  by (simp add: log_tau_directed_nocovariate_def sp_mul_Y2_Z1 spt_mul_Y2_Z1 theta11_d trans_1x1
        d_mul_def d_add_def
        mk_mat_2x1 at_2x1 at_1x1 m_map_def each_row_add_def log_v_def pi1_def)

lemma G0: "n_rows (m_map Fin Gamma0) = Suc 0" "n_cols (m_map Fin Gamma0) = Suc 0"
  "m_at (m_map Fin Gamma0) 0 0 = Fin 0"
  "n_rows Gamma0 = Suc 0" "n_cols Gamma0 = Suc 0" "m_at Gamma0 0 0 = 0"
  by (simp_all add: Gamma0_def)

lemma penalty_0:
  "penalty Z1 Gamma0 M2 (Suc 0) 0 0 0 = Inr (Fin (ln 2))"
  "penalty Z1 Gamma0 M2 0 (Suc 0) 0 0 = Inr (Fin (ln 2))"
  by (simp_all add: penalty_def m_elem_def Z1_dims Z1_at G0 M2_at)

lemma log_tau_cov_small:
  "log_tau_undirected_covariates Y2 Y2 M2 Z1 Gamma0 pi1 =
     Inr \<lparr>n_rows = 2, n_cols = Suc 0, mem = [Fin (- (2 * ln 2)), Fin (- (2 * ln 2))]\<rparr>"
  by (simp add: log_tau_undirected_covariates_def sp_mul_Y2_Z1 d_mul_def G0 mk_mat_2x1 at_2x1
        Y2_dims Z1_dims penalty_0 m_sub_at_def dsub_def each_row_add_def log_v_def pi1_def)

lemma log_tau_und_wide:
  "log_tau_undirected_nocovariate Y2 Y2 Z1 theta12 pi2 0 =
     Inr \<lparr>n_rows = 2, n_cols = 2,
          mem = [Fin (- (2 * ln 2)), Fin (- (2 * ln 2)), Fin (- (2 * ln 2)), Fin (- (2 * ln 2))]\<rparr>"
  by (simp add: log_tau_undirected_nocovariate_def sp_mul_Y2_Z1 theta12_d d_mul_def d_add_def
        mk_mat_2x2 at_2x1 at_2x2 at_1x2 m_map_def each_row_add_def log_v_def pi2_def)

lemma softmax_pair: "softmax_row [Fin c, Fin c] = Inr [Fin (1 / 2), Fin (1 / 2)]"
  by (simp add: softmax_row_def vmax_def dsub_def dsum_list_def)

lemma e_step_wide_value:
  "E_step_sparse_bernoulli_undirected_nocovariate Y2 Y2 Z1 theta12 pi2 0 =
     Inr (mat_of_rows 2 2 [[Fin (1 / 2), Fin (1 / 2)], [Fin (1 / 2), Fin (1 / 2)]])"
  by (simp add: E_step_sparse_bernoulli_undirected_nocovariate_def log_tau_und_wide
        each_row_apply_def m_row_def at_2x2 upt_2 softmax_pair mat_of_rows_def mk_mat_2x2)

lemma all_finite_pair: "all_finite \<lparr>n_rows = 2, n_cols = Suc 0, mem = [Fin a, Fin b]\<rparr>"
  by (simp add: all_finite_def upt_2 at_2x1 is_fin_def)

section \<open>The expectation step returns row-stochastic matrices on finite log-scores\<close>

text \<open>
  C3, as the specification states it, fails: finite inputs do not make the log-scores
  finite. In the covariate E-step on two nodes and one cluster with \<open>\<Gamma> = 800\<close>, \<open>M = 0\<close> and
  \<open>\<pi> = 1/2\<close>, \<open>exp(Gamma + M)\<close> exceeds the largest double, \<open>log(1 + exp(Gamma + M))\<close> is \<open>+\<infinity>\<close>,
  the log-score of each node is \<open>-\<infinity>\<close>, so is the maximum of its row, and \<open>x - max(x)\<close> is a
  NaN: the matrix returned holds NaN only, and its rows do not sum to 1.
\<close>

theorem e_step_finite_input_nan:
  "E_step_sparse_bernoulli_undirected_covariates Y2 Y2 M2 Z1 Gamma800 pi1 =
     Inr (mat_of_rows 2 1 [[QNaN], [QNaN]]) \<and>
   \<not> row_stochastic (mat_of_rows 2 1 [[QNaN], [QNaN]])"
proof -
  have s: "mat_of_rows 2 (Suc 0) [[QNaN], [QNaN]] =
           \<lparr>n_rows = 2, n_cols = Suc 0, mem = [QNaN, QNaN]\<rparr>"
    by (simp add: mat_of_rows_def mk_mat_2x1)
  show ?thesis
    using e_step_cov_800 not_stochastic_nan by (simp add: s)
qed

text \<open>
  C3, amended. The row-wise softmax that ends every E-step, applied to a matrix of finite
  log-scores with at least one column (and fewer than \<open>2 ^ 64\<close>, as every column count of
  the program), returns a matrix of the same size whose entries are finite and not
  negative and whose rows each sum to 1. Hence each of the three E-step variants returns
  such a matrix whenever the log-scores it computes are finite; that they are does not
  follow from the inputs being finite.
\<close>

theorem e_step_softmax_row_stochastic:
  "(all_finite S \<and> 0 < n_cols S \<and> n_cols S < 2 ^ 64 \<longrightarrow>
      (\<exists>T. each_row_apply softmax_row S = Inr T \<and>
           n_rows T = n_rows S \<and> n_cols T = n_cols S \<and> row_stochastic T)) \<and>
   (log_tau_undirected_nocovariate Y R Z \<theta> pi_v log_lambda = Inr S \<and>
    all_finite S \<and> 0 < n_cols S \<and> n_cols S < 2 ^ 64 \<longrightarrow>
      (\<exists>T. E_step_sparse_bernoulli_undirected_nocovariate Y R Z \<theta> pi_v log_lambda = Inr T \<and>
           n_rows T = n_rows S \<and> n_cols T = n_cols S \<and> row_stochastic T)) \<and>
   (log_tau_directed_nocovariate Y R Z \<theta> pi_v log_lambda = Inr S \<and>
    all_finite S \<and> 0 < n_cols S \<and> n_cols S < 2 ^ 64 \<longrightarrow>
      (\<exists>T. E_step_sparse_bernoulli_directed_nocovariate Y R Z \<theta> pi_v log_lambda = Inr T \<and>
           n_rows T = n_rows S \<and> n_cols T = n_cols S \<and> row_stochastic T)) \<and>
   (log_tau_undirected_covariates Y R M Z Gamma pi_v = Inr S \<and>
    all_finite S \<and> 0 < n_cols S \<and> n_cols S < 2 ^ 64 \<longrightarrow>
      (\<exists>T. E_step_sparse_bernoulli_undirected_covariates Y R M Z Gamma pi_v = Inr T \<and>
           n_rows T = n_rows S \<and> n_cols T = n_cols S \<and> row_stochastic T))"
  by (simp add: E_step_sparse_bernoulli_undirected_nocovariate_def
        E_step_sparse_bernoulli_directed_nocovariate_def
        E_step_sparse_bernoulli_undirected_covariates_def softmax_stage)

theorem e_step_softmax_row_stochastic_witness:
  "(\<exists>T. each_row_apply softmax_row (mat_of_rows 2 1 [[Fin 800], [Fin 5]]) = Inr T \<and>
        n_rows T = 2 \<and> n_cols T = 1 \<and> row_stochastic T) \<and>
   (\<exists>T. E_step_sparse_bernoulli_undirected_nocovariate Y2 Y2 Z1 theta11 pi1 0 = Inr T \<and>
        n_rows T = 2 \<and> n_cols T = 1 \<and> row_stochastic T) \<and>
   (\<exists>T. E_step_sparse_bernoulli_directed_nocovariate Y2 Y2 Z1 theta11 pi1 0 = Inr T \<and>
        n_rows T = 2 \<and> n_cols T = 1 \<and> row_stochastic T) \<and>
   (\<exists>T. E_step_sparse_bernoulli_undirected_covariates Y2 Y2 M2 Z1 Gamma0 pi1 = Inr T \<and>
        n_rows T = 2 \<and> n_cols T = 1 \<and> row_stochastic T)"
proof -
  have s: "mat_of_rows 2 (Suc 0) [[Fin 800], [Fin 5]] =
           \<lparr>n_rows = 2, n_cols = Suc 0, mem = [Fin 800, Fin 5]\<rparr>"
    by (simp add: mat_of_rows_def mk_mat_2x1)
  have a: "\<exists>T. each_row_apply softmax_row (mat_of_rows 2 1 [[Fin 800], [Fin 5]]) = Inr T \<and>
        n_rows T = 2 \<and> n_cols T = 1 \<and> row_stochastic T"
    using e_step_softmax_row_stochastic[where S = "\<lparr>n_rows = 2, n_cols = Suc 0,
                          mem = [Fin 800, Fin 5]\<rparr>"
          and Y = Y2 and R = Y2 and Z = Z1 and \<theta> = theta11 and pi_v = pi1 and log_lambda = 0
          and M = M2 and Gamma = Gamma0]
    by (simp add: s all_finite_pair)
  have b: "(\<exists>T. E_step_sparse_bernoulli_undirected_nocovariate Y2 Y2 Z1 theta11 pi1 0 = Inr T \<and>
        n_rows T = 2 \<and> n_cols T = 1 \<and> row_stochastic T) \<and>
     (\<exists>T. E_step_sparse_bernoulli_undirected_covariates Y2 Y2 M2 Z1 Gamma0 pi1 = Inr T \<and>
        n_rows T = 2 \<and> n_cols T = 1 \<and> row_stochastic T)"
    using e_step_softmax_row_stochastic[where S = "\<lparr>n_rows = 2, n_cols = Suc 0,
                          mem = [Fin (- (2 * ln 2)), Fin (- (2 * ln 2))]\<rparr>"
          and Y = Y2 and R = Y2 and Z = Z1 and \<theta> = theta11 and pi_v = pi1 and log_lambda = 0
          and M = M2 and Gamma = Gamma0]
    by (simp add: all_finite_pair log_tau_und_small log_tau_cov_small)
  have c: "\<exists>T. E_step_sparse_bernoulli_directed_nocovariate Y2 Y2 Z1 theta11 pi1 0 = Inr T \<and>
        n_rows T = 2 \<and> n_cols T = 1 \<and> row_stochastic T"
    using e_step_softmax_row_stochastic[where S = "\<lparr>n_rows = 2, n_cols = Suc 0,
                          mem = [Fin (- (3 * ln 2)), Fin (- (3 * ln 2))]\<rparr>"
          and Y = Y2 and R = Y2 and Z = Z1 and \<theta> = theta11 and pi_v = pi1 and log_lambda = 0
          and M = M2 and Gamma = Gamma0]
    by (simp add: all_finite_pair log_tau_dir_small)
  from a b c show ?thesis by blast
qed

section \<open>Dimension checks\<close>

lemma m_step_long_param:
  "M_step_sparse_bernoulli_undirected_covariates param3 Y2 Y2 X2 Z1 =
     Inr \<lparr>objective = ln 2, gradient = [- (1 / 2), - (1 / 2)]\<rparr>"
  by (simp add: M_step_sparse_bernoulli_undirected_covariates_def Let_def param3_def Y2_def X2_def
      m_step_dyad_def lower_def tube_def c_at_def dot_def row_of_def Z1_facts
      sp_elem_def sp_at_def outer_def schur_def m_map_def m_add_def v_add_def m_at_def)

lemma m_step_take:
  assumes "n_cols Z * n_cols Z + c_n_slices X \<le> length param"
  shows "M_step_sparse_bernoulli_undirected_covariates
            (take (n_cols Z * n_cols Z + c_n_slices X) param) Y R X Z =
         M_step_sparse_bernoulli_undirected_covariates param Y R X Z"
  using assms
  by (simp add: M_step_sparse_bernoulli_undirected_covariates_def Let_def drop_take min_def)

text \<open>
  C8, as the specification states it, fails: a parameter vector longer than \<open>Q * Q + K\<close>
  raises no error in the covariate M-step, and a \<open>1 \<times> 2\<close> matrix \<open>\<theta>\<close> with a one-column \<open>Z\<close>
  raises none in the undirected E-step, which returns a matrix with two columns.
\<close>

theorem dimension_mismatch_accepted:
  "length param3 \<noteq> n_cols Z1 * n_cols Z1 + c_n_slices X2 \<and>
   M_step_sparse_bernoulli_undirected_covariates param3 Y2 Y2 X2 Z1 =
     Inr \<lparr>objective = ln 2, gradient = [- (1 / 2), - (1 / 2)]\<rparr> \<and>
   n_cols theta12 \<noteq> n_cols Z1 \<and>
   E_step_sparse_bernoulli_undirected_nocovariate Y2 Y2 Z1 theta12 pi2 0 =
     Inr (mat_of_rows 2 2 [[Fin (1 / 2), Fin (1 / 2)], [Fin (1 / 2), Fin (1 / 2)]])"
  using m_step_long_param e_step_wide_value
  by (simp add: param3_def Z1_def X2_def theta12_def)

text \<open>
  C8, amended. The undirected E-step without covariates fails with a dimension-mismatch
  error whenever the column count of \<open>Z\<close> differs from the row count of \<open>\<theta>\<close>, or the length of
  \<open>\<pi>\<close> from the column count of \<open>\<theta>\<close>; so does the covariate E-step when the column count of
  \<open>Z\<close> differs from the row count of \<open>\<Gamma>\<close>. The covariate M-step does not check the length of
  the parameter vector: of a vector with at least \<open>Q * Q + K\<close> entries it uses the first
  \<open>Q * Q + K\<close> and returns what it returns on the vector cut to that length.
\<close>

theorem dimension_checks:
  "(n_cols Z \<noteq> n_rows \<theta> \<or> length pi_v \<noteq> n_cols \<theta> \<longrightarrow>
      E_step_sparse_bernoulli_undirected_nocovariate Y R Z \<theta> pi_v log_lambda = Inl DimMismatch) \<and>
   (n_cols Z \<noteq> n_rows Gamma \<longrightarrow>
      E_step_sparse_bernoulli_undirected_covariates Y R M Z Gamma pi_v = Inl DimMismatch) \<and>
   (n_cols Z * n_cols Z + c_n_slices X \<le> length param \<longrightarrow>
      M_step_sparse_bernoulli_undirected_covariates param Y R X Z =
      M_step_sparse_bernoulli_undirected_covariates
        (take (n_cols Z * n_cols Z + c_n_slices X) param) Y R X Z)"
proof (intro conjI impI)
  assume "n_cols Z \<noteq> n_rows \<theta> \<or> length pi_v \<noteq> n_cols \<theta>"
  then show "E_step_sparse_bernoulli_undirected_nocovariate Y R Z \<theta> pi_v log_lambda = Inl DimMismatch"
    by (auto simp: E_step_sparse_bernoulli_undirected_nocovariate_def
         log_tau_undirected_nocovariate_def sp_mul_def d_mul_def logit_d_def log1m_d_def
         d_add_def each_row_add_def log_v_def)
next
  assume "n_cols Z \<noteq> n_rows Gamma"
  then show "E_step_sparse_bernoulli_undirected_covariates Y R M Z Gamma pi_v = Inl DimMismatch"
    by (simp add: E_step_sparse_bernoulli_undirected_covariates_def
          log_tau_undirected_covariates_def sp_mul_def d_mul_def)
next
  assume "n_cols Z * n_cols Z + c_n_slices X \<le> length param"
  then show "M_step_sparse_bernoulli_undirected_covariates param Y R X Z =
      M_step_sparse_bernoulli_undirected_covariates
        (take (n_cols Z * n_cols Z + c_n_slices X) param) Y R X Z"
    by (simp add: m_step_take)
qed

theorem dimension_checks_witness:
  "E_step_sparse_bernoulli_undirected_nocovariate Y3 R3 Z3 M3 pi2 0 = Inl DimMismatch \<and>
   E_step_sparse_bernoulli_undirected_covariates Y3 R3 M3 Z3 M3 pi2 = Inl DimMismatch \<and>
   M_step_sparse_bernoulli_undirected_covariates param3 Y2 Y2 X2 Z1 =
     M_step_sparse_bernoulli_undirected_covariates [0, 0] Y2 Y2 X2 Z1"
  using dimension_checks[of Z3 M3 pi2 Y3 R3 0 M3 M3 X2 "[]"] dimension_checks[of Z1 M3 pi2 Y2 Y2 0 M3 M3 X2 param3]
  by (simp add: Z3_def M3_def Z1_def X2_def param3_def)

end
